theory Spec2Isabelle
  imports Main "HOL-Library.Word"
begin

section \<open>The queue of device operations\<close>

text \<open>
  Modelled from the spec: the functions \<open>fb_queue_download\<close>, \<open>fb_queue_flash\<close>,
  \<open>fb_queue_verify\<close>, \<open>fb_queue_erase\<close>, \<open>fb_queue_check\<close>, \<open>fb_queue_display\<close>,
  \<open>fb_queue_set\<close>, \<open>fb_queue_command\<close>, \<open>fb_queue_reboot\<close> and \<open>fb_queue_require\<close> are
  declared in \<open>fastboot.h\<close> and defined in the engine, neither of which is part of
  \<open>fastboot.c\<close>. The specification has the queue as an ordered, append-only list of
  operations: each call is recorded as one entry, named after the function and holding the
  arguments of the call, and the queue is the list of the calls in the order they were
  made.
\<close>

type_synonym u16 = "16 word"
type_synonym u32 = "32 word"
type_synonym u64 = "64 word"

datatype action =
    Download string string u32      \<comment> \<open>\<open>fb_queue_download(name, data, sz)\<close>\<close>
  | Flash string u32                \<comment> \<open>\<open>fb_queue_flash(ptn, sz)\<close>\<close>
  | Verify string u32               \<comment> \<open>\<open>fb_queue_verify(ptn, sz)\<close>\<close>
  | Erase string                    \<comment> \<open>\<open>fb_queue_erase(ptn)\<close>\<close>
  | Check string                    \<comment> \<open>\<open>fb_queue_check(ptn)\<close>\<close>
  | Display string string           \<comment> \<open>\<open>fb_queue_display(var, prettyname)\<close>\<close>
  | SetVar string string string     \<comment> \<open>\<open>fb_queue_set(var, value, prettyname)\<close>\<close>
  | GenericCommand string string    \<comment> \<open>\<open>fb_queue_command(cmd, msg)\<close>\<close>
  | Reboot                          \<comment> \<open>\<open>fb_queue_reboot()\<close>\<close>
  | Requirement string bool "string list"
                                    \<comment> \<open>\<open>fb_queue_require(var, invert, nvalues, value)\<close>\<close>

text \<open>The ways the process ends before the queue is run: \<open>usage()\<close> and \<open>die(...)\<close>,
  both \<open>exit(1)\<close>, and a write past the end of a local array.\<close>

datatype error =
    UsageError                      \<comment> \<open>\<open>usage()\<close>\<close>
  | InvalidVendorId string          \<comment> \<open>\<open>die("invalid vendor id '%s'", argv[1])\<close>\<close>
  | CannotLoad string               \<comment> \<open>\<open>die("cannot load '%s'\n", fname)\<close>\<close>
  | CannotDetermineFilename         \<comment> \<open>\<open>die("cannot determine image filename")\<close>\<close>
  | OutOfMemory                     \<comment> \<open>\<open>die("out of memory")\<close>\<close>
  | BufferOverrun                   \<comment> \<open>\<open>strcat\<close> past \<open>command[256]\<close>: undefined behaviour\<close>
  | NoArguments                     \<comment> \<open>\<open>argc = 0\<close> on entry: \<open>argv\<close> is read past its end\<close>

section \<open>The state of the program\<close>

text \<open>
  The state of the program: \<open>argv\<close> holds \<open>argv[0 .. argc - 1]\<close>, so \<open>argc\<close> is its
  length; \<open>serial\<close> and \<open>vendor_id\<close> are the file's static variables; \<open>sz\<close> is the
  local of \<open>main\<close> that \<open>load_file\<close> writes through its pointer; \<open>heap\<close> is the number of
  allocations (\<open>malloc\<close>, \<open>strdup\<close>) that will still succeed; \<open>queue\<close> is the engine's
  list of queued actions. The parser of requirements uses \<open>heap\<close> and \<open>queue\<close> only.
\<close>

record state =
  argv :: "string list"
  serial :: "string option"
  vendor_id :: u16
  sz :: u32
  heap :: nat
  queue :: "action list"

section \<open>C strings\<close>

text \<open>A buffer is a list of bytes. The C string at its start ends before the first NUL.\<close>

definition NUL :: char where
  "NUL = CHR 0x00"

definition cstr :: "string \<Rightarrow> string" where
  "cstr buf = takeWhile (\<lambda>c. c \<noteq> NUL) buf"

text \<open>\<open>isspace\<close> of the C locale: space, \<open>\t\<close>, \<open>\n\<close>, \<open>\v\<close>, \<open>\f\<close>, \<open>\r\<close>; no byte
  from \<open>0x80\<close> on is white space.\<close>

definition isspace :: "char \<Rightarrow> bool" where
  "isspace c = (c = CHR '' '' \<or> c = CHR 0x09 \<or> c = CHR 0x0A \<or> c = CHR 0x0B
                \<or> c = CHR 0x0C \<or> c = CHR 0x0D)"

text \<open>\<open>strchr(s, c)\<close>: the offset of the first \<open>c\<close> in \<open>s\<close>, or a null pointer.\<close>

definition strchr :: "string \<Rightarrow> char \<Rightarrow> nat option" where
  "strchr s c = (if c \<in> set s then Some (length (takeWhile (\<lambda>x. x \<noteq> c) s)) else None)"

text \<open>\<open>strncmp(s, lit, n) == 0\<close> for a literal \<open>lit\<close> of \<open>n\<close> characters (none of them NUL)
  and a NUL-free \<open>s\<close>: the first \<open>n\<close> characters of \<open>s\<close> are \<open>lit\<close>.\<close>

definition strncmp_eq :: "string \<Rightarrow> string \<Rightarrow> nat \<Rightarrow> bool" where
  "strncmp_eq s lit n = (take n s = take n lit)"

text \<open>
  \<open>strip\<close> moves the pointer past the leading white space and then overwrites the
  trailing white space with NUL, from the end backwards.
\<close>

definition strip :: "string \<Rightarrow> string" where
  "strip s = (let s' = dropWhile isspace s in rev (dropWhile isspace (rev s')))"

section \<open>The requirements parser\<close>

definition MAX_OPTIONS :: nat where
  "MAX_OPTIONS = 32"

definition alloc :: "state \<Rightarrow> state option" where
  "alloc st = (if heap st = 0 then None else Some (st\<lparr>heap := heap st - 1\<rparr>))"

text \<open>Modelled from the spec: \<open>fb_queue_require\<close> (defined in the engine) appends one
  Requirement entry with the \<open>n\<close> values of \<open>out\<close>.\<close>

definition fb_queue_require :: "string \<Rightarrow> bool \<Rightarrow> nat \<Rightarrow> string list \<Rightarrow> state \<Rightarrow> state" where
  "fb_queue_require name invert n out st =
     st\<lparr>queue := queue st @ [Requirement name invert (take n out)]\<rparr>"

text \<open>
  The loop \<open>for(count = 1; count < MAX_OPTIONS; count++)\<close>: \<open>v\<close> is \<open>val[count - 1]\<close>, the
  result is \<open>val[count - 1 .. ]\<close> as the loop leaves it. Each \<open>'|'\<close> found is overwritten
  with NUL, which ends the value before it.
\<close>

function split_values :: "nat \<Rightarrow> string \<Rightarrow> string list" where
  "split_values count v =
     (if count < MAX_OPTIONS then
        (case strchr v (CHR ''|'') of
           None \<Rightarrow> [v]
         | Some i \<Rightarrow> take i v # split_values (count + 1) (drop (Suc i) v))
      else [v])"
  by pat_completeness auto
termination
  by (relation "measure (\<lambda>(count, v). MAX_OPTIONS - count)") auto

declare split_values.simps [simp del]

text \<open>The loop \<open>out[n] = strdup(strip(val[n]))\<close>, which returns \<open>-1\<close> at the first
  \<open>strdup\<close> that fails.\<close>

fun strdup_all :: "state \<Rightarrow> string list \<Rightarrow> (state \<times> string list) option" where
  "strdup_all st [] = Some (st, [])"
| "strdup_all st (v # vs) =
     (case alloc st of
        None \<Rightarrow> None
      | Some st1 \<Rightarrow>
          (case strdup_all st1 vs of
             None \<Rightarrow> None
           | Some (st2, out) \<Rightarrow> Some (st2, strip v # out)))"

text \<open>
  The test at the head of \<open>setup_requirement_line\<close>: the line past its keyword, and
  \<open>invert\<close>.
\<close>

definition keyword :: "string \<Rightarrow> string \<times> bool" where
  "keyword line =
     (if strncmp_eq line ''reject '' 7 then (drop 7 line, True)
      else if strncmp_eq line ''require '' 8 then (drop 8 line, False)
      else (line, False))"

text \<open>
  \<open>setup_requirement_line(name)\<close>, on the C string of the line. It returns the function's
  \<open>int\<close> and the state. \<open>strip\<close> never returns a null pointer, so the test
  \<open>if (name == 0) return -1\<close> has no branch here.
\<close>

definition setup_requirement_line :: "state \<Rightarrow> string \<Rightarrow> int \<times> state" where
  "setup_requirement_line st line =
     (let (name, invert) = keyword line
      in case strchr name (CHR ''='') of
           None \<Rightarrow> (0, st)
         | Some x \<Rightarrow>
             (let val = split_values 1 (drop (Suc x) name);
                  count = length val;
                  name = take x name;
                  name = strip name;
                  val = map strip val;
                  name = strip name;
                  name = (if name = ''board'' then ''product'' else name)
              in case alloc st of
                   None \<Rightarrow> (- 1, st)
                 | Some st1 \<Rightarrow>
                     (case strdup_all st1 val of
                        None \<Rightarrow> (- 1, st1)
                      | Some (st2, out) \<Rightarrow>
                          (0, fb_queue_require name invert count out st2))))"

text \<open>
  \<open>setup_requirements(data, sz)\<close>, on the \<open>sz\<close> bytes of the buffer. \<open>line\<close> holds the
  bytes from \<open>data\<close> up to \<open>s\<close>; at a newline they are passed on as a C string. What is
  left in \<open>line\<close> when the bytes run out is dropped.
\<close>

fun setup_requirements_loop :: "state \<Rightarrow> string \<Rightarrow> string \<Rightarrow> error + state" where
  "setup_requirements_loop st line [] = Inr st"
| "setup_requirements_loop st line (c # s) =
     (if c = CHR 0x0A then
        (case setup_requirement_line st (cstr line) of
           (r, st') \<Rightarrow> if r \<noteq> 0 then Inl OutOfMemory else setup_requirements_loop st' [] s)
      else setup_requirements_loop st (line @ [c]) s)"

definition setup_requirements :: "state \<Rightarrow> string \<Rightarrow> error + state" where
  "setup_requirements st data = setup_requirements_loop st [] data"

section \<open>The command line\<close>

text \<open>
  What the program reads from its surroundings: the environment variable
  \<open>KINDLE_SERIAL\<close> (\<open>getenv\<close> returns a null pointer when it is unset); the files that can
  be opened and read, by path, with their bytes; the value that the local \<open>sz\<close> of
  \<open>main\<close>, declared \<open>unsigned sz;\<close> with no initialiser, happens to hold; and the number of
  allocations that will succeed.
\<close>

record env =
  KINDLE_SERIAL :: "string option"
  files :: "string \<Rightarrow> string option"
  stack_sz :: u32
  heap0 :: nat

text \<open>
  \<open>load_file(fn, &sz)\<close>: \<open>open\<close> fails on a path that \<open>files\<close> does not have. \<open>int sz\<close>
  takes the low 32 bits of the length \<open>lseek\<close> returns and the load fails when that is
  negative. \<open>malloc\<close> takes one allocation. \<open>read\<close> fills the buffer with the first \<open>sz\<close>
  bytes of the file. The result is the buffer, with \<open>sz\<close> stored through the pointer, or
  a null pointer.
\<close>

definition load_file :: "env \<Rightarrow> state \<Rightarrow> string \<Rightarrow> (string \<times> state) option" where
  "load_file e st fn =
     (case files e fn of
        None \<Rightarrow> None
      | Some bytes \<Rightarrow>
          (let n = (word_of_nat (length bytes) :: u32)
           in if sint n < 0 then None
              else (case alloc st of
                      None \<Rightarrow> None
                    | Some st1 \<Rightarrow> Some (take (unat n) bytes, st1\<lparr>sz := n\<rparr>))))"

subsection \<open>\<open>strtoul\<close> with base 0\<close>

text \<open>
  \<open>strtoul(nptr, &endptr, 0)\<close> of the C library, for a 64-bit \<open>unsigned long\<close>: white
  space is skipped, a sign is optional, \<open>0x\<close> or \<open>0X\<close> before a hexadecimal digit selects
  base 16, another leading \<open>0\<close> base 8, anything else base 10; the digits of that base are
  consumed; with no digit the result is 0 and \<open>endptr\<close> is \<open>nptr\<close>; a value that does
  not fit is \<open>ULONG_MAX\<close>, and a minus sign negates the value in \<open>unsigned long\<close>.
  The result is the value and the string at \<open>endptr\<close>.
\<close>

definition digit_value :: "char \<Rightarrow> int option" where
  "digit_value c =
     (let n = (of_char c :: int)
      in if 48 \<le> n \<and> n \<le> 57 then Some (n - 48)
         else if 97 \<le> n \<and> n \<le> 122 then Some (n - 87)
         else if 65 \<le> n \<and> n \<le> 90 then Some (n - 55)
         else None)"

definition is_digit :: "int \<Rightarrow> char \<Rightarrow> bool" where
  "is_digit base c = (case digit_value c of None \<Rightarrow> False | Some d \<Rightarrow> d < base)"

fun strtoul_digits :: "int \<Rightarrow> int \<Rightarrow> string \<Rightarrow> int \<times> string" where
  "strtoul_digits base acc [] = (acc, [])"
| "strtoul_digits base acc (c # cs) =
     (if is_digit base c
      then strtoul_digits base (acc * base + the (digit_value c)) cs
      else (acc, c # cs))"

definition ULONG_MAX :: int where
  "ULONG_MAX = 2 ^ 64 - 1"

definition strtoul :: "string \<Rightarrow> u64 \<times> string" where
  "strtoul nptr =
     (let s = dropWhile isspace nptr;
          neg = (take 1 s = ''-'');
          s = (if take 1 s = ''-'' \<or> take 1 s = ''+'' then drop 1 s else s);
          hex = ((take 2 s = ''0x'' \<or> take 2 s = ''0X'') \<and> take 1 (drop 2 s) \<noteq> []
                 \<and> is_digit 16 (s ! 2));
          base = (if hex then 16 else if take 1 s = ''0'' then 8 else 10);
          s = (if hex then drop 2 s else s);
          (n, rest) = strtoul_digits base 0 s
      in if length rest = length s then (0, nptr)
         else if ULONG_MAX < n then (word_of_int ULONG_MAX, rest)
         else if neg then (- word_of_int n, rest)
         else (word_of_int n, rest))"

subsection \<open>The commands\<close>

text \<open>The macros \<open>skip(n)\<close> and \<open>require(n)\<close>; \<open>require\<close> calls \<open>usage()\<close> when it fails.\<close>

definition skip :: "nat \<Rightarrow> state \<Rightarrow> state" where
  "skip n st = st\<lparr>argv := drop n (argv st)\<rparr>"

definition require :: "nat \<Rightarrow> state \<Rightarrow> bool" where
  "require n st = (\<not> length (argv st) < n)"

text \<open>Modelled from the spec: every other \<open>fb_queue_*\<close> function (defined in the engine)
  appends its entry to the queue.\<close>

definition enqueue :: "action \<Rightarrow> state \<Rightarrow> state" where
  "enqueue a st = st\<lparr>queue := queue st @ [a]\<rparr>"

text \<open>
  The loop of \<open>do_oem_command\<close>: \<open>strcat(command, *argv); skip(1); if (argc == 0) break;
  strcat(command, " ")\<close>. It is entered with \<open>argc > 1\<close>.
\<close>

fun oem_loop :: "string \<Rightarrow> string list \<Rightarrow> string" where
  "oem_loop command [] = command"
| "oem_loop command (a # as) =
     (if as = [] then command @ a else oem_loop (command @ a @ '' '') as)"

text \<open>
  \<open>do_oem_command(argc, argv)\<close>, where \<open>argv[0]\<close> is the token \<open>oem\<close>. The array
  \<open>command\<close> has 256 bytes, one of them for the final NUL. The result is the \<open>int\<close>
  returned and the state; the caller's \<open>argc\<close> and \<open>argv\<close> are not changed by it.
\<close>

definition do_oem_command :: "state \<Rightarrow> error + (int \<times> state)" where
  "do_oem_command st =
     (if length (argv st) \<le> 1 then Inr (0, st)
      else (let command = oem_loop [] (argv st)
            in if 256 \<le> length command then Inl BufferOverrun
               else Inr (0, enqueue (GenericCommand command []) st)))"

definition cmd_download :: "env \<Rightarrow> state \<Rightarrow> error + state" where
  "cmd_download e st =
     (if \<not> require 2 st then Inl UsageError
      else (let (fname, st1) =
                  (if 1 < length (argv st) then (Some (argv st ! 1), skip 2 st) else (None, st))
            in case fname of
                 None \<Rightarrow> Inl CannotDetermineFilename
               | Some f \<Rightarrow>
                   (case load_file e st1 f of
                      None \<Rightarrow> Inl (CannotLoad f)
                    | Some (data, st2) \<Rightarrow> Inr (enqueue (Download ''data'' data (sz st2)) st2))))"

definition cmd_verify :: "env \<Rightarrow> state \<Rightarrow> error + state" where
  "cmd_verify e st =
     (if \<not> require 2 st then Inl UsageError
      else (let pname = argv st ! 1;
                (fname, st1) =
                  (if 2 < length (argv st) then (Some (argv st ! 2), skip 3 st)
                   else (None, skip 2 st))
            in case fname of
                 None \<Rightarrow> Inr (enqueue (Verify pname (sz st1)) st1)
               | Some f \<Rightarrow>
                   (case load_file e st1 f of
                      None \<Rightarrow> Inl (CannotLoad f)
                    | Some (data, st2) \<Rightarrow>
                        Inr (enqueue (Verify pname (sz st2))
                               (enqueue (Download pname data (sz st2)) st2)))))"

definition cmd_flash :: "env \<Rightarrow> state \<Rightarrow> error + state" where
  "cmd_flash e st =
     (if \<not> require 2 st then Inl UsageError
      else (let pname = argv st ! 1;
                (fname, st1) =
                  (if 2 < length (argv st) then (Some (argv st ! 2), skip 3 st)
                   else (None, skip 2 st))
            in case fname of
                 None \<Rightarrow> Inr (enqueue (Flash pname (sz st1)) st1)
               | Some f \<Rightarrow>
                   (case load_file e st1 f of
                      None \<Rightarrow> Inl (CannotLoad f)
                    | Some (data, st2) \<Rightarrow>
                        Inr (enqueue (Flash pname (sz st2))
                               (enqueue (Download pname data (sz st2)) st2)))))"

definition cmd_boot :: "env \<Rightarrow> state \<Rightarrow> error + state" where
  "cmd_boot e st =
     (if \<not> require 1 st then Inl UsageError
      else (let (fname, st1) =
                  (if 1 < length (argv st) then (Some (argv st ! 1), skip 2 st)
                   else (None, skip 1 st))
            in case fname of
                 None \<Rightarrow> Inr (enqueue (GenericCommand ''boot'' ''booting'') st1)
               | Some f \<Rightarrow>
                   (case load_file e st1 f of
                      None \<Rightarrow> Inl (CannotLoad f)
                    | Some (data, st2) \<Rightarrow>
                        Inr (enqueue (GenericCommand ''boot'' ''booting'')
                               (enqueue (Download ''boot'' data (sz st2)) st2)))))"

definition opt_s :: "state \<Rightarrow> error + state" where
  "opt_s st =
     (if \<not> require 2 st then Inl UsageError
      else Inr (skip 2 (st\<lparr>serial := Some (argv st ! 1)\<rparr>)))"

definition opt_i :: "state \<Rightarrow> error + state" where
  "opt_i st =
     (if \<not> require 2 st then Inl UsageError
      else (let (val, endptr) = strtoul (argv st ! 1)
            in if endptr \<noteq> [] \<or> (and val (not 0xffff)) \<noteq> 0
               then Inl (InvalidVendorId (argv st ! 1))
               else Inr (skip 2 (st\<lparr>vendor_id := ucast val\<rparr>))))"

definition cmd_getvar :: "state \<Rightarrow> error + state" where
  "cmd_getvar st =
     (if \<not> require 2 st then Inl UsageError
      else Inr (skip 2 (enqueue (Display (argv st ! 1) (argv st ! 1)) st)))"

definition cmd_setvar :: "state \<Rightarrow> error + state" where
  "cmd_setvar st =
     (if \<not> require 3 st then Inl UsageError
      else Inr (skip 3 (enqueue (SetVar (argv st ! 1) (argv st ! 2) (argv st ! 1)) st)))"

definition cmd_erase :: "state \<Rightarrow> error + state" where
  "cmd_erase st =
     (if \<not> require 2 st then Inl UsageError
      else Inr (skip 2 (enqueue (Erase (argv st ! 1)) st)))"

definition cmd_check :: "state \<Rightarrow> error + state" where
  "cmd_check st =
     (if \<not> require 2 st then Inl UsageError
      else Inr (skip 2 (enqueue (Check (argv st ! 1)) st)))"

definition cmd_oem :: "state \<Rightarrow> error + state" where
  "cmd_oem st =
     (case do_oem_command st of
        Inl err \<Rightarrow> Inl err
      | Inr (r, st1) \<Rightarrow> Inr (st1\<lparr>argv := take (nat r) (argv st1)\<rparr>))"

text \<open>The branches that queue one fixed action and \<open>skip(1)\<close>.\<close>

definition cmd_plain :: "action \<Rightarrow> state \<Rightarrow> error + state" where
  "cmd_plain a st = Inr (skip 1 (enqueue a st))"

text \<open>
  The chain of \<open>if(!strcmp(*argv, ...)) ... else if ...\<close> in the loop of \<open>main\<close>, as the
  list of the names tested, in the order of the source, each with its branch. The branch
  taken is that of the first name equal to \<open>*argv\<close>; the final \<open>else\<close> is \<open>usage()\<close>.
\<close>

definition commands :: "env \<Rightarrow> (string \<times> (state \<Rightarrow> error + state)) list" where
  "commands e =
     [(''-s'', opt_s),
      (''-i'', opt_i),
      (''getvar'', cmd_getvar),
      (''setvar'', cmd_setvar),
      (''download'', cmd_download e),
      (''verify'', cmd_verify e),
      (''flash'', cmd_flash e),
      (''eraseall'', cmd_plain (GenericCommand ''eraseall'' ''wiping the flash memory'')),
      (''erase'', cmd_erase),
      (''check'', cmd_check),
      (''boot'', cmd_boot e),
      (''continue'', cmd_plain (GenericCommand ''continue'' ''resuming boot'')),
      (''oem'', cmd_oem),
      (''reboot'', cmd_plain Reboot),
      (''powerdown'', cmd_plain (GenericCommand ''powerdown'' ''shutting down'')),
      (''pass'', cmd_plain (GenericCommand ''pass'' ''turning on led'')),
      (''fail'', cmd_plain (GenericCommand ''fail'' ''turning on led''))]"

text \<open>One turn of \<open>while (argc > 0)\<close>.\<close>

definition scan_step :: "env \<Rightarrow> state \<Rightarrow> error + state" where
  "scan_step e st =
     (case map_of (commands e) (argv st ! 0) of
        None \<Rightarrow> Inl UsageError
      | Some branch \<Rightarrow> branch st)"

text \<open>Every branch that returns has consumed at least one token, so the loop ends.\<close>

lemma load_file_argv: "load_file e st f = Some (d, st') \<Longrightarrow> argv st' = argv st"
  by (auto simp: load_file_def alloc_def Let_def split: option.splits if_splits)

lemma opt_s_consumes: "opt_s st = Inr st' \<Longrightarrow> argv st \<noteq> [] \<Longrightarrow> length (argv st') < length (argv st)"
  by (auto simp: opt_s_def require_def skip_def split: if_splits)

lemma opt_i_consumes: "opt_i st = Inr st' \<Longrightarrow> argv st \<noteq> [] \<Longrightarrow> length (argv st') < length (argv st)"
  by (auto simp: opt_i_def require_def skip_def Let_def split: if_splits prod.splits)

lemma cmd_getvar_consumes: "cmd_getvar st = Inr st' \<Longrightarrow> argv st \<noteq> [] \<Longrightarrow> length (argv st') < length (argv st)"
  by (auto simp: cmd_getvar_def require_def skip_def enqueue_def split: if_splits)

lemma cmd_setvar_consumes: "cmd_setvar st = Inr st' \<Longrightarrow> argv st \<noteq> [] \<Longrightarrow> length (argv st') < length (argv st)"
  by (auto simp: cmd_setvar_def require_def skip_def enqueue_def split: if_splits)

lemma cmd_erase_consumes: "cmd_erase st = Inr st' \<Longrightarrow> argv st \<noteq> [] \<Longrightarrow> length (argv st') < length (argv st)"
  by (auto simp: cmd_erase_def require_def skip_def enqueue_def split: if_splits)

lemma cmd_check_consumes: "cmd_check st = Inr st' \<Longrightarrow> argv st \<noteq> [] \<Longrightarrow> length (argv st') < length (argv st)"
  by (auto simp: cmd_check_def require_def skip_def enqueue_def split: if_splits)

lemma cmd_plain_consumes: "cmd_plain a st = Inr st' \<Longrightarrow> argv st \<noteq> [] \<Longrightarrow> length (argv st') < length (argv st)"
  by (auto simp: cmd_plain_def skip_def enqueue_def)

lemma cmd_oem_consumes: "cmd_oem st = Inr st' \<Longrightarrow> argv st \<noteq> [] \<Longrightarrow> length (argv st') < length (argv st)"
  by (auto simp: cmd_oem_def do_oem_command_def enqueue_def Let_def split: if_splits sum.splits)

lemma cmd_download_consumes: "cmd_download e st = Inr st' \<Longrightarrow> argv st \<noteq> [] \<Longrightarrow> length (argv st') < length (argv st)"
  by (auto simp: cmd_download_def require_def skip_def enqueue_def Let_def dest!: load_file_argv split: if_splits option.splits prod.splits)

lemma cmd_verify_consumes: "cmd_verify e st = Inr st' \<Longrightarrow> argv st \<noteq> [] \<Longrightarrow> length (argv st') < length (argv st)"
  by (auto simp: cmd_verify_def require_def skip_def enqueue_def Let_def dest!: load_file_argv split: if_splits option.splits prod.splits)

lemma cmd_flash_consumes: "cmd_flash e st = Inr st' \<Longrightarrow> argv st \<noteq> [] \<Longrightarrow> length (argv st') < length (argv st)"
  by (auto simp: cmd_flash_def require_def skip_def enqueue_def Let_def dest!: load_file_argv split: if_splits option.splits prod.splits)

lemma cmd_boot_consumes: "cmd_boot e st = Inr st' \<Longrightarrow> argv st \<noteq> [] \<Longrightarrow> length (argv st') < length (argv st)"
  by (auto simp: cmd_boot_def require_def skip_def enqueue_def Let_def dest!: load_file_argv split: if_splits option.splits prod.splits)

lemmas branch_consumes = opt_s_consumes opt_i_consumes cmd_getvar_consumes cmd_setvar_consumes
  cmd_erase_consumes cmd_check_consumes cmd_plain_consumes cmd_oem_consumes
  cmd_download_consumes cmd_verify_consumes cmd_flash_consumes cmd_boot_consumes

lemma commands_consume:
  "(k, branch) \<in> set (commands e) \<Longrightarrow> branch st = Inr st' \<Longrightarrow> argv st \<noteq> [] \<Longrightarrow>
   length (argv st') < length (argv st)"
  unfolding commands_def by (auto dest: branch_consumes)

lemma scan_step_consumes:
  "scan_step e st = Inr st' \<Longrightarrow> argv st \<noteq> [] \<Longrightarrow> length (argv st') < length (argv st)"
  unfolding scan_step_def
  by (auto split: option.splits dest!: map_of_SomeD dest: commands_consume)

text \<open>The loop \<open>while (argc > 0)\<close>.\<close>

function scan :: "env \<Rightarrow> state \<Rightarrow> error + state" where
  "scan e st =
     (if 0 < length (argv st) then
        (case scan_step e st of
           Inl err \<Rightarrow> Inl err
         | Inr st' \<Rightarrow> scan e st')
      else Inr st)"
  by pat_completeness auto
termination
  by (relation "measure (\<lambda>(e, st). length (argv st))") (auto dest: scan_step_consumes)

declare scan.simps [simp del]

text \<open>The first \<open>n\<close> turns of the loop: the state the scan has reached after them.\<close>

fun turns :: "nat \<Rightarrow> env \<Rightarrow> state \<Rightarrow> error + state" where
  "turns 0 e st = Inr st"
| "turns (Suc n) e st =
     (if 0 < length (argv st) then
        (case scan_step e st of
           Inl err \<Rightarrow> Inl err
         | Inr st' \<Rightarrow> turns n e st')
      else Inr st)"

text \<open>
  \<open>main(argc, argv)\<close>. After \<open>skip(1)\<close> has dropped the program's name: with no token
  left, \<open>usage()\<close>; with \<open>devices\<close> first, \<open>list_devices()\<close> and \<open>return 0\<close>; otherwise the loop
  runs from the state \<open>initial\<close>, and when it has consumed every token the device is opened
  with the filter of the final state and its queue is passed to \<open>fb_execute_queue\<close>.
  The flags \<open>wants_reboot\<close> and \<open>wants_reboot_bootloader\<close> are 0 throughout.
\<close>

datatype outcome =
    ListedDevices
  | Execute state

definition initial :: "env \<Rightarrow> string list \<Rightarrow> state" where
  "initial e a =
     \<lparr>argv = a, serial = KINDLE_SERIAL e, vendor_id = 0, sz = stack_sz e,
      heap = heap0 e, queue = []\<rparr>"

definition main :: "env \<Rightarrow> string list \<Rightarrow> error + outcome" where
  "main e args =
     (if args = [] then Inl NoArguments
      else (let a = drop 1 args
            in if length a = 0 then Inl UsageError
               else if a ! 0 = ''devices'' then Inr ListedDevices
               else (case scan e (initial e a) of
                       Inl err \<Rightarrow> Inl err
                     | Inr st \<Rightarrow> Inr (Execute st))))"

section \<open>The specification's own notions\<close>

text \<open>The tokens joined with single spaces, as the specification words the assembling of
  an \<open>oem\<close> command.\<close>

fun spec_join :: "string list \<Rightarrow> string" where
  "spec_join [] = []"
| "spec_join [a] = a"
| "spec_join (a # b # r) = a @ '' '' @ spec_join (b # r)"

text \<open>The values of a requirement joined with \<open>|\<close>, as the line has them.\<close>

fun join_bar :: "string list \<Rightarrow> string" where
  "join_bar [] = []"
| "join_bar [a] = a"
| "join_bar (a # b # r) = a @ ''|'' @ join_bar (b # r)"

text \<open>The specification's table of commands: the number of tokens each requires after
  its name.\<close>

definition spec_arity :: "(string \<times> nat) list" where
  "spec_arity =
     [(''getvar'', 1), (''setvar'', 2), (''download'', 1), (''verify'', 1), (''flash'', 1),
      (''boot'', 0), (''erase'', 1), (''check'', 1), (''eraseall'', 0), (''continue'', 0),
      (''reboot'', 0), (''powerdown'', 0), (''pass'', 0), (''fail'', 0), (''oem'', 0)]"

text \<open>
  The values the specification lets \<open>-i\<close> take: an unsigned integer literal, decimal or
  with the prefix \<open>0x\<close>, and its numeric value; \<open>spec_vendor_id\<close> is that value when it
  fits 16 bits, and \<open>None\<close> for every other argument.
\<close>

definition spec_dec_digit :: "char \<Rightarrow> bool" where
  "spec_dec_digit c = (48 \<le> (of_char c :: int) \<and> (of_char c :: int) \<le> 57)"

definition spec_hex_digit :: "char \<Rightarrow> bool" where
  "spec_hex_digit c =
     (spec_dec_digit c \<or> 97 \<le> (of_char c :: int) \<and> (of_char c :: int) \<le> 102
      \<or> 65 \<le> (of_char c :: int) \<and> (of_char c :: int) \<le> 70)"

definition spec_digit_val :: "char \<Rightarrow> int" where
  "spec_digit_val c =
     (if spec_dec_digit c then of_char c - 48
      else if 97 \<le> (of_char c :: int) then of_char c - 87
      else of_char c - 55)"

definition spec_value :: "int \<Rightarrow> string \<Rightarrow> int" where
  "spec_value base s = foldl (\<lambda>a c. a * base + spec_digit_val c) 0 s"

definition spec_decimal_literal :: "string \<Rightarrow> bool" where
  "spec_decimal_literal s = (s \<noteq> [] \<and> list_all spec_dec_digit s)"

definition spec_hex_literal :: "string \<Rightarrow> bool" where
  "spec_hex_literal s =
     ((take 2 s = ''0x'' \<or> take 2 s = ''0X'') \<and> drop 2 s \<noteq> []
      \<and> list_all spec_hex_digit (drop 2 s))"

definition spec_vendor_id :: "string \<Rightarrow> int option" where
  "spec_vendor_id s =
     (if spec_hex_literal s then
        (if spec_value 16 (drop 2 s) < 2 ^ 16 then Some (spec_value 16 (drop 2 s)) else None)
      else if spec_decimal_literal s then
        (if spec_value 10 s < 2 ^ 16 then Some (spec_value 10 s) else None)
      else None)"

text \<open>The DeviceFilterContext: the serial filter and the vendor-id filter.\<close>

definition filter_of :: "state \<Rightarrow> string option \<times> u16" where
  "filter_of st = (serial st, vendor_id st)"

text \<open>An environment for worked examples: one file, \<open>img.bin\<close>, of five bytes.\<close>

definition env0 :: env where
  "env0 = \<lparr>KINDLE_SERIAL = None, files = (\<lambda>f. if f = ''img.bin'' then Some ''abcde'' else None),
            stack_sz = 0xDEADBEEF, heap0 = 4\<rparr>"

section \<open>Running the command line\<close>

lemma scan_done: "argv st = [] \<Longrightarrow> scan e st = Inr st"
  by (simp add: scan.simps)

lemma scan_turn:
  "argv st \<noteq> [] \<Longrightarrow>
   scan e st = (case scan_step e st of Inl err \<Rightarrow> Inl err | Inr st' \<Rightarrow> scan e st')"
  by (subst scan.simps) simp

lemma main_scan:
  "toks \<noteq> [] \<Longrightarrow> hd toks \<noteq> ''devices'' \<Longrightarrow>
   main e (prog # toks) =
     (case scan e (initial e toks) of Inl err \<Rightarrow> Inl err | Inr st \<Rightarrow> Inr (Execute st))"
  by (cases toks) (simp_all add: main_def)

lemma step_flash: "argv st ! 0 = ''flash'' \<Longrightarrow> scan_step e st = cmd_flash e st"
  by (simp add: scan_step_def commands_def)

lemma step_oem: "argv st ! 0 = ''oem'' \<Longrightarrow> scan_step e st = cmd_oem st"
  by (simp add: scan_step_def commands_def)

subsection \<open>Loading a file\<close>

lemma sint_length:
  assumes "n < 2 ^ 31"
  shows "sint (word_of_nat n :: u32) = int n" "unat (word_of_nat n :: u32) = n"
proof -
  have "int n < 2 ^ 31" using assms by (metis of_nat_less_iff of_nat_numeral of_nat_power)
  then have "signed_take_bit 31 (int n) = int n"
    by (intro signed_take_bit_int_eq_self) auto
  then show "sint (word_of_nat n :: u32) = int n"
    by (simp add: signed_of_nat)
  show "unat (word_of_nat n :: u32) = n"
    using assms by (simp add: unat_of_nat)
qed

lemma load_file_small:
  assumes "files e fname = Some bytes" "length bytes < 2 ^ 31" "0 < heap st"
  shows "load_file e st fname =
           Some (bytes, st\<lparr>heap := heap st - 1, sz := word_of_nat (length bytes)\<rparr>)"
  using assms by (simp add: load_file_def alloc_def sint_length)

subsection \<open>\<open>flash\<close>\<close>

lemma flash_with_file:
  assumes "load_file e (initial e []) fname = Some (data, st)"
  shows "main e [prog, ''flash'', pname, fname] =
     Inr (Execute (st\<lparr>queue := [Download pname data (sz st), Flash pname (sz st)]\<rparr>))"
proof -
  have q: "queue st = []" "argv st = []"
    using assms
    by (auto simp: load_file_def alloc_def initial_def Let_def split: option.splits if_splits)
  show ?thesis using assms q
    by (simp add: main_scan scan_turn scan_done step_flash initial_def cmd_flash_def require_def
      skip_def enqueue_def)
qed

lemma flash_without_file:
  "main e [prog, ''flash'', pname] =
     Inr (Execute ((initial e [])\<lparr>queue := [Flash pname (stack_sz e)]\<rparr>))"
  by (simp add: main_scan scan_turn scan_done step_flash initial_def cmd_flash_def require_def
      skip_def enqueue_def)

text \<open>
  Claim C3. For the tokens \<open>flash boot img.bin\<close>, and for any partition and file name in
  their place, when the file loads (it exists, its length fits a non-negative \<open>int\<close>, and
  the allocation succeeds) the queue handed over is exactly the Download of the file's
  bytes and length for that partition, followed at once by the Flash of that partition
  with the same length.
\<close>

theorem flash_with_file_queue:
  assumes "files e fname = Some bytes" and "length bytes < 2 ^ 31" and "0 < heap0 e"
  shows "main e [prog, ''flash'', pname, fname] =
           Inr (Execute ((initial e [])
             \<lparr>sz := word_of_nat (length bytes), heap := heap0 e - 1,
              queue := [Download pname bytes (word_of_nat (length bytes)),
                        Flash pname (word_of_nat (length bytes))]\<rparr>))"
proof -
  have "load_file e (initial e []) fname =
          Some (bytes, (initial e [])\<lparr>heap := heap0 e - 1, sz := word_of_nat (length bytes)\<rparr>)"
    using assms by (simp add: load_file_small initial_def)
  from flash_with_file [OF this] show ?thesis
    by (simp add: initial_def)
qed

theorem flash_with_file_queue_witness:
  "main env0 [''fastboot'', ''flash'', ''boot'', ''img.bin''] =
     Inr (Execute \<lparr>argv = [], serial = None, vendor_id = 0, sz = 5, heap = 3,
                   queue = [Download ''boot'' ''abcde'' 5, Flash ''boot'' 5]\<rparr>)"
  using flash_with_file_queue [of env0 "''img.bin''" "''abcde''" "''fastboot''" "''boot''"]
  by (simp add: env0_def initial_def)

text \<open>
  Claim C4. For the tokens \<open>flash boot\<close> with nothing loaded before, the claim has the
  queue \<open>[Flash(boot, 0)]\<close>. The length queued is the value of the local \<open>sz\<close>, which
  nothing has written: where that value is \<open>0xDEADBEEF\<close> the queue is
  \<open>[Flash(boot, 0xDEADBEEF)]\<close>.
\<close>

theorem flash_without_file_garbage:
  "main env0 [''fastboot'', ''flash'', ''boot''] =
     Inr (Execute \<lparr>argv = [], serial = None, vendor_id = 0, sz = 0xDEADBEEF, heap = 4,
                   queue = [Flash ''boot'' 0xDEADBEEF]\<rparr>)"
  by (simp add: flash_without_file env0_def initial_def)

subsection \<open>\<open>oem\<close>\<close>

lemma oem_loop_join: "toks \<noteq> [] \<Longrightarrow> oem_loop command toks = command @ spec_join toks"
proof (induction toks arbitrary: command)
  case Nil
  then show ?case by simp
next
  case (Cons a as)
  then show ?case by (cases as) simp_all
qed

lemma oem_tokens:
  assumes "rest \<noteq> []" and "length (spec_join (''oem'' # rest)) < 256"
  shows "scan e (st\<lparr>argv := ''oem'' # rest\<rparr>) =
           Inr (st\<lparr>argv := [], queue := queue st @ [GenericCommand (spec_join (''oem'' # rest)) []]\<rparr>)"
proof -
  have "oem_loop [] (''oem'' # rest) = spec_join (''oem'' # rest)"
    using oem_loop_join [of "''oem'' # rest" "[]"] by simp
  then show ?thesis using assms
    by (simp add: scan_turn scan_done step_oem cmd_oem_def do_oem_command_def enqueue_def)
qed

lemma oem_alone: "scan e (st\<lparr>argv := [''oem'']\<rparr>) = Inr (st\<lparr>argv := []\<rparr>)"
  by (simp add: scan_turn scan_done step_oem cmd_oem_def do_oem_command_def)

text \<open>
  Claim C2, as amended. For the tokens \<open>oem foo bar\<close> the queue is exactly one
  GenericCommand whose name is \<open>oem foo bar\<close>: the keyword \<open>oem\<close> and the tokens after it,
  joined with single spaces (as long as the result fits the 256 bytes of the array), with
  an empty progress message. For \<open>oem\<close> alone no entry is queued and the run goes on
  without an error.
\<close>

theorem oem_queue:
  "main e [prog, ''oem''] = Inr (Execute (initial e []))
   \<and> (rest \<noteq> [] \<longrightarrow> length (spec_join (''oem'' # rest)) < 256 \<longrightarrow>
        main e (prog # ''oem'' # rest) =
          Inr (Execute ((initial e [])
                 \<lparr>queue := [GenericCommand (spec_join (''oem'' # rest)) []]\<rparr>)))"
proof -
  have i: "initial e toks = (initial e [])\<lparr>argv := toks\<rparr>" for toks
    by (simp add: initial_def)
  have "main e [prog, ''oem''] = Inr (Execute (initial e []))"
    using oem_alone [of e "initial e []"]
    by (simp add: main_scan i [of "[''oem'']"]) (simp add: initial_def)
  moreover have "main e (prog # ''oem'' # rest) =
          Inr (Execute ((initial e [])\<lparr>queue := [GenericCommand (spec_join (''oem'' # rest)) []]\<rparr>))"
    if "rest \<noteq> []" "length (spec_join (''oem'' # rest)) < 256"
    using oem_tokens [OF that, of e "initial e []"]
    by (simp add: main_scan i [of "''oem'' # rest"]) (simp add: initial_def)
  ultimately show ?thesis by blast
qed

theorem oem_queue_witness:
  "main env0 [''fastboot'', ''oem''] = Inr (Execute (initial env0 []))
   \<and> main env0 [''fastboot'', ''oem'', ''foo'', ''bar''] =
       Inr (Execute ((initial env0 [])\<lparr>queue := [GenericCommand ''oem foo bar'' []]\<rparr>))"
  using oem_queue [of env0 "''fastboot''" "[''foo'', ''bar'']"] by simp

text \<open>Claim C2 as stated has the name \<open>foo bar\<close>, without the keyword; the code queues
  \<open>oem foo bar\<close>.\<close>

theorem oem_keyword_kept:
  "main env0 [''fastboot'', ''oem'', ''foo'', ''bar''] =
     Inr (Execute \<lparr>argv = [], serial = None, vendor_id = 0, sz = 0xDEADBEEF, heap = 4,
                   queue = [GenericCommand ''oem foo bar'' []]\<rparr>)
   \<and> GenericCommand ''oem foo bar'' [] \<noteq> GenericCommand ''foo bar'' []"
  by (simp add: main_scan scan_turn scan_done step_oem cmd_oem_def do_oem_command_def
      enqueue_def initial_def env0_def)

subsection \<open>Usage errors\<close>

lemma command_names:
  "map fst (commands e) =
     [''-s'', ''-i'', ''getvar'', ''setvar'', ''download'', ''verify'', ''flash'', ''eraseall'',
      ''erase'', ''check'', ''boot'', ''continue'', ''oem'', ''reboot'', ''powerdown'', ''pass'',
      ''fail'']"
  by (simp add: commands_def)

lemma unknown_command:
  assumes "tok \<notin> set (map fst (commands e))"
  shows "scan e (st\<lparr>argv := tok # rest\<rparr>) = Inl UsageError"
proof -
  have "map_of (commands e) tok = None"
    using assms by (simp add: map_of_eq_None_iff)
  then show ?thesis by (simp add: scan_turn scan_step_def)
qed

lemma too_few_tokens:
  assumes "(tok, n) \<in> set spec_arity" and "length rest < n"
  shows "scan e (st\<lparr>argv := tok # rest\<rparr>) = Inl UsageError"
proof -
  have "tok = ''setvar'' \<and> length rest < 2
        \<or> tok \<in> {''getvar'', ''download'', ''verify'', ''flash'', ''erase'', ''check''} \<and> rest = []"
    using assms by (auto simp: spec_arity_def)
  then have "scan_step e (st\<lparr>argv := tok # rest\<rparr>) = Inl UsageError"
    by (elim disjE conjE insertE emptyE)
      (simp_all add: scan_step_def commands_def require_def cmd_getvar_def cmd_setvar_def
        cmd_download_def cmd_verify_def cmd_flash_def cmd_erase_def cmd_check_def)
  then show ?thesis by (simp add: scan_turn)
qed

lemma option_without_value:
  "scan e (st\<lparr>argv := [''-s'']\<rparr>) = Inl UsageError"
  "scan e (st\<lparr>argv := [''-i'']\<rparr>) = Inl UsageError"
  by (simp_all add: scan_turn scan_step_def commands_def require_def opt_s_def opt_i_def)

lemma main_fails:
  assumes "scan e ((initial e [])\<lparr>argv := tok # rest\<rparr>) = Inl err" and "tok \<noteq> ''devices''"
  shows "main e (prog # tok # rest) = Inl err"
proof -
  have "initial e (tok # rest) = (initial e [])\<lparr>argv := tok # rest\<rparr>"
    by (simp add: initial_def)
  then show ?thesis using assms by (simp add: main_scan)
qed

lemma scan_after_turns: "turns n e st = Inr st' \<Longrightarrow> scan e st = scan e st'"
proof (induction n arbitrary: st)
  case 0
  then show ?case by simp
next
  case (Suc n)
  show ?case
  proof (cases "argv st = []")
    case True
    with Suc.prems show ?thesis by simp
  next
    case False
    with Suc.prems obtain st1 where s: "scan_step e st = Inr st1" "turns n e st1 = Inr st'"
      by (auto split: sum.splits)
    from Suc.IH [OF s(2)] s(1) False show ?thesis by (simp add: scan_turn)
  qed
qed

lemma usage_error_reached:
  assumes "toks \<noteq> []" and "hd toks \<noteq> ''devices''"
    and "turns m e (initial e toks) = Inr st'" and "argv st' = tok # rest"
    and "tok \<notin> set (map fst (commands e)) \<or> (tok, n) \<in> set spec_arity \<and> length rest < n"
  shows "main e (prog # toks) = Inl UsageError"
proof -
  have "st' = st'\<lparr>argv := tok # rest\<rparr>" using assms(4) by simp
  then have "scan e st' = Inl UsageError"
    using assms(5) unknown_command [where tok = tok and e = e and st = st' and rest = rest]
      too_few_tokens [where tok = tok and e = e and st = st' and rest = rest and n = n]
    by metis
  with scan_after_turns [OF assms(3)] have "scan e (initial e toks) = Inl UsageError" by simp
  then show ?thesis using assms(1,2) by (simp add: main_scan)
qed

text \<open>
  Claim C8. Wherever the scan stands, with whatever queue already built: a token in
  command position that is not a name of the command table, or a command (or option) with
  fewer tokens after it than it requires, ends the run with the usage error, so that no
  queue is handed over for execution. So every invocation whose scan reaches such a token,
  after any number of turns, is a usage error; in particular \<open>getvar\<close> alone is one.
\<close>

theorem usage_error:
  "(tok \<notin> set (map fst (commands e)) \<longrightarrow> scan e (st\<lparr>argv := tok # rest\<rparr>) = Inl UsageError)
   \<and> ((tok, n) \<in> set spec_arity \<longrightarrow> length rest < n \<longrightarrow>
        scan e (st\<lparr>argv := tok # rest\<rparr>) = Inl UsageError)
   \<and> scan e (st\<lparr>argv := [''-s'']\<rparr>) = Inl UsageError
   \<and> scan e (st\<lparr>argv := [''-i'']\<rparr>) = Inl UsageError
   \<and> (tok \<notin> set (map fst (commands e)) \<longrightarrow> tok \<noteq> ''devices'' \<longrightarrow>
        main e (prog # tok # rest) = Inl UsageError)
   \<and> ((tok, n) \<in> set spec_arity \<longrightarrow> length rest < n \<longrightarrow>
        main e (prog # tok # rest) = Inl UsageError)
   \<and> (toks \<noteq> [] \<longrightarrow> hd toks \<noteq> ''devices'' \<longrightarrow> turns m e (initial e toks) = Inr st' \<longrightarrow>
        argv st' = tok # rest \<longrightarrow>
        tok \<notin> set (map fst (commands e)) \<or> (tok, n) \<in> set spec_arity \<and> length rest < n \<longrightarrow>
        main e (prog # toks) = Inl UsageError)
   \<and> main e [prog, ''getvar''] = Inl UsageError"
proof -
  have d: "tok \<noteq> ''devices''" if "(tok, n) \<in> set spec_arity"
    using that by (auto simp: spec_arity_def)
  have g: "main e [prog, ''getvar''] = Inl UsageError"
    by (rule main_fails [OF too_few_tokens [of "''getvar''" 1]]) (simp_all add: spec_arity_def)
  show ?thesis
    using unknown_command [where tok = tok and e = e and st = st and rest = rest]
      too_few_tokens [where tok = tok and n = n and rest = rest and e = e and st = st]
      option_without_value [where e = e and st = st]
      main_fails [OF unknown_command [where tok = tok and e = e and st = "initial e []"
          and rest = rest], where prog = prog]
      main_fails [OF too_few_tokens [where tok = tok and n = n and rest = rest and e = e
          and st = "initial e []"], where prog = prog] d g
      usage_error_reached [where toks = toks and m = m and e = e and st' = st' and tok = tok
        and rest = rest and n = n and prog = prog]
    by simp
qed

theorem usage_error_witness:
  "''bogus'' \<notin> set (map fst (commands env0))
   \<and> scan env0 ((initial env0 [])\<lparr>queue := [Erase ''boot''], argv := [''bogus'', ''reboot'']\<rparr>)
       = Inl UsageError
   \<and> main env0 [''fastboot'', ''bogus'', ''reboot''] = Inl UsageError
   \<and> (''setvar'', 2) \<in> set spec_arity
   \<and> scan env0 ((initial env0 [])\<lparr>queue := [Erase ''boot''], argv := [''setvar'', ''mac'']\<rparr>)
       = Inl UsageError
   \<and> main env0 [''fastboot'', ''setvar'', ''mac''] = Inl UsageError
   \<and> turns 1 env0 (initial env0 [''erase'', ''boot'', ''bogus'', ''reboot'']) =
       Inr ((initial env0 [])\<lparr>argv := [''bogus'', ''reboot''], queue := [Erase ''boot'']\<rparr>)
   \<and> main env0 [''fastboot'', ''erase'', ''boot'', ''bogus'', ''reboot''] = Inl UsageError"
proof -
  have t: "turns 1 env0 (initial env0 [''erase'', ''boot'', ''bogus'', ''reboot'']) =
       Inr ((initial env0 [])\<lparr>argv := [''bogus'', ''reboot''], queue := [Erase ''boot'']\<rparr>)"
    by (simp add: scan_step_def commands_def cmd_erase_def require_def skip_def enqueue_def
        initial_def)
  show ?thesis
    using usage_error [where tok = "''bogus''" and e = env0 and rest = "[''reboot'']" and n = 0
        and st = "(initial env0 [])\<lparr>queue := [Erase ''boot'']\<rparr>" and prog = "''fastboot''"
        and toks = "[''erase'', ''boot'', ''bogus'', ''reboot'']" and m = 1
        and st' = "(initial env0 [])\<lparr>argv := [''bogus'', ''reboot''], queue := [Erase ''boot'']\<rparr>"]
      usage_error [where tok = "''setvar''" and e = env0 and rest = "[''mac'']" and n = 2
        and st = "(initial env0 [])\<lparr>queue := [Erase ''boot'']\<rparr>" and prog = "''fastboot''"]
      t
    by (simp add: command_names spec_arity_def)
qed

subsection \<open>The device filter\<close>

lemma filter_of_simps [simp]:
  "filter_of (skip n st) = filter_of st"
  "filter_of (enqueue a st) = filter_of st"
  "filter_of (st\<lparr>argv := as\<rparr>) = filter_of st"
  by (simp_all add: filter_of_def skip_def enqueue_def)

lemma load_file_filter: "load_file e st f = Some (d, st') \<Longrightarrow> filter_of st' = filter_of st"
  by (auto simp: load_file_def alloc_def filter_of_def Let_def split: option.splits if_splits)

lemma cmd_getvar_filter: "cmd_getvar st = Inr st' \<Longrightarrow> filter_of st' = filter_of st"
  by (auto simp: cmd_getvar_def split: if_splits)

lemma cmd_setvar_filter: "cmd_setvar st = Inr st' \<Longrightarrow> filter_of st' = filter_of st"
  by (auto simp: cmd_setvar_def split: if_splits)

lemma cmd_erase_filter: "cmd_erase st = Inr st' \<Longrightarrow> filter_of st' = filter_of st"
  by (auto simp: cmd_erase_def split: if_splits)

lemma cmd_check_filter: "cmd_check st = Inr st' \<Longrightarrow> filter_of st' = filter_of st"
  by (auto simp: cmd_check_def split: if_splits)

lemma cmd_plain_filter: "cmd_plain a st = Inr st' \<Longrightarrow> filter_of st' = filter_of st"
  by (auto simp: cmd_plain_def)

lemma cmd_oem_filter: "cmd_oem st = Inr st' \<Longrightarrow> filter_of st' = filter_of st"
  by (auto simp: cmd_oem_def do_oem_command_def Let_def split: if_splits sum.splits)

lemma cmd_download_filter: "cmd_download e st = Inr st' \<Longrightarrow> filter_of st' = filter_of st"
  by (auto simp: cmd_download_def Let_def
      dest!: load_file_filter split: if_splits option.splits prod.splits)

lemma cmd_verify_filter: "cmd_verify e st = Inr st' \<Longrightarrow> filter_of st' = filter_of st"
  by (auto simp: cmd_verify_def Let_def
      dest!: load_file_filter split: if_splits option.splits prod.splits)

lemma cmd_flash_filter: "cmd_flash e st = Inr st' \<Longrightarrow> filter_of st' = filter_of st"
  by (auto simp: cmd_flash_def Let_def
      dest!: load_file_filter split: if_splits option.splits prod.splits)

lemma cmd_boot_filter: "cmd_boot e st = Inr st' \<Longrightarrow> filter_of st' = filter_of st"
  by (auto simp: cmd_boot_def Let_def
      dest!: load_file_filter split: if_splits option.splits prod.splits)

lemmas branch_filter = cmd_getvar_filter cmd_setvar_filter cmd_erase_filter cmd_check_filter
  cmd_plain_filter cmd_oem_filter cmd_download_filter cmd_verify_filter cmd_flash_filter
  cmd_boot_filter

lemma commands_filter_all:
  "list_all (\<lambda>(k, branch). k = ''-s'' \<or> k = ''-i'' \<or>
      (\<forall>st st'. branch st = Inr st' \<longrightarrow> filter_of st' = filter_of st)) (commands e)"
  unfolding commands_def
  by (simp, intro conjI allI impI; erule branch_filter)

lemma commands_filter:
  assumes "(k, branch) \<in> set (commands e)" and "k \<noteq> ''-s''" and "k \<noteq> ''-i''"
    and "branch st = Inr st'"
  shows "filter_of st' = filter_of st"
  using commands_filter_all [of e] assms unfolding list_all_iff by blast

lemma command_keeps_filter:
  assumes "argv st ! 0 \<noteq> ''-s''" and "argv st ! 0 \<noteq> ''-i''" and "scan_step e st = Inr st'"
  shows "filter_of st' = filter_of st"
proof -
  from assms(3) obtain branch where
    b: "map_of (commands e) (argv st ! 0) = Some branch" "branch st = Inr st'"
    by (auto simp: scan_step_def split: option.splits)
  from b(1) have "(argv st ! 0, branch) \<in> set (commands e)"
    by (rule map_of_SomeD)
  from commands_filter [OF this assms(1,2) b(2)] show ?thesis .
qed

lemma strtoul_1949: "strtoul ''0x1949'' = (0x1949, [])"
  by code_simp

lemma option_s_anywhere:
  "scan_step e (st\<lparr>argv := ''-s'' # x # rest\<rparr>) = Inr (st\<lparr>argv := rest, serial := Some x\<rparr>)"
  by (simp add: scan_step_def commands_def opt_s_def require_def skip_def)

lemma option_i_1949:
  "scan_step e (st\<lparr>argv := ''-i'' # ''0x1949'' # rest\<rparr>) =
     Inr (st\<lparr>argv := rest, vendor_id := 0x1949\<rparr>)"
  by (simp add: scan_step_def commands_def opt_i_def require_def skip_def strtoul_1949)

lemma option_after_command:
  "main e [prog, ''getvar'', x, ''-s'', y, ''-i'', ''0x1949''] =
     Inr (Execute ((initial e [])\<lparr>serial := Some y, vendor_id := 0x1949, queue := [Display x x]\<rparr>))"
  by (simp add: main_scan scan_turn scan_done scan_step_def commands_def cmd_getvar_def opt_s_def
      opt_i_def require_def skip_def enqueue_def initial_def strtoul_1949)

text \<open>
  Claim C7, as amended. The serial and vendor-id filters are changed by the options \<open>-s\<close>
  and \<open>-i\<close> only, and by these at every turn of the scan: no command changes the filter,
  while an option is taken wherever a command name may stand, also after commands have
  been consumed and queued, and overwrites the filter there.
\<close>

theorem filter_changed_by_options:
  "(argv st ! 0 \<noteq> ''-s'' \<longrightarrow> argv st ! 0 \<noteq> ''-i'' \<longrightarrow> scan_step e st = Inr st' \<longrightarrow>
      filter_of st' = filter_of st)
   \<and> scan_step e (st\<lparr>argv := ''-s'' # x # rest\<rparr>) = Inr (st\<lparr>argv := rest, serial := Some x\<rparr>)
   \<and> scan_step e (st\<lparr>argv := ''-i'' # ''0x1949'' # rest\<rparr>) =
       Inr (st\<lparr>argv := rest, vendor_id := 0x1949\<rparr>)
   \<and> main e [prog, ''getvar'', x, ''-s'', y, ''-i'', ''0x1949''] =
       Inr (Execute ((initial e [])
              \<lparr>serial := Some y, vendor_id := 0x1949, queue := [Display x x]\<rparr>))"
  using command_keeps_filter [where st = st and e = e and st' = st']
    option_s_anywhere [where e = e and st = st and x = x and rest = rest]
    option_i_1949 [where e = e and st = st and rest = rest]
    option_after_command [where e = e and prog = prog and x = x and y = y]
  by simp

theorem filter_changed_by_options_witness:
  "argv (initial env0 [''erase'', ''boot'']) ! 0 \<noteq> ''-s''
   \<and> argv (initial env0 [''erase'', ''boot'']) ! 0 \<noteq> ''-i''
   \<and> scan_step env0 (initial env0 [''erase'', ''boot'']) =
       Inr ((initial env0 [])\<lparr>queue := [Erase ''boot'']\<rparr>)
   \<and> filter_of ((initial env0 [])\<lparr>queue := [Erase ''boot'']\<rparr>) =
       filter_of (initial env0 [''erase'', ''boot''])"
  using filter_changed_by_options [where st = "initial env0 [''erase'', ''boot'']" and e = env0
      and st' = "(initial env0 [])\<lparr>queue := [Erase ''boot'']\<rparr>"]
  by (simp add: initial_def scan_step_def commands_def cmd_erase_def require_def skip_def
      enqueue_def)

text \<open>Claim C7 as stated has the filter immutable once a command has been consumed. Here
  \<open>getvar version\<close> is consumed first, with the filter unset, and the options after it
  set both parts of the filter.\<close>

theorem filter_set_after_command:
  "scan_step env0 (initial env0 [''getvar'', ''version'', ''-s'', ''ABC'', ''-i'', ''0x1949'']) =
     Inr \<lparr>argv = [''-s'', ''ABC'', ''-i'', ''0x1949''], serial = None, vendor_id = 0,
          sz = 0xDEADBEEF, heap = 4, queue = [Display ''version'' ''version'']\<rparr>
   \<and> main env0 [''fastboot'', ''getvar'', ''version'', ''-s'', ''ABC'', ''-i'', ''0x1949''] =
       Inr (Execute \<lparr>argv = [], serial = Some ''ABC'', vendor_id = 0x1949,
              sz = 0xDEADBEEF, heap = 4, queue = [Display ''version'' ''version'']\<rparr>)"
  by (simp add: option_after_command initial_def env0_def scan_step_def commands_def
      cmd_getvar_def require_def skip_def enqueue_def)

section \<open>Running the requirements parser\<close>

lemma strip_idem: "strip (strip s) = strip s"
proof -
  define t where "t = dropWhile isspace s"
  define u where "u = rev (dropWhile isspace (rev t))"
  have tu: "t = u @ rev (takeWhile isspace (rev t))"
    unfolding u_def by (metis rev_append rev_rev_ident takeWhile_dropWhile_id)
  have "dropWhile isspace u = u"
  proof (cases "u = []")
    case True
    then show ?thesis by simp
  next
    case False
    then have "hd u = hd t" using tu by (metis hd_append2)
    moreover have "t \<noteq> []" using False tu by auto
    then have "\<not> isspace (hd t)" unfolding t_def by (rule hd_dropWhile)
    ultimately show ?thesis using False by (simp add: dropWhile_eq_self_iff)
  qed
  moreover have "dropWhile isspace (rev u) = rev u"
    unfolding u_def by simp
  ultimately show ?thesis
    by (simp add: strip_def t_def [symmetric] u_def [symmetric])
qed

lemma count_list_all_others: "\<forall>x\<in>set xs. P x \<Longrightarrow> \<not> P c \<Longrightarrow> count_list xs c = 0"
  by (induction xs) auto

lemma count_list_dropWhile: "\<not> P c \<Longrightarrow> count_list (dropWhile P xs) c = count_list xs c"
  by (induction xs) auto

lemma count_list_rev: "count_list (rev xs) c = count_list xs c"
  by (induction xs) auto

lemma count_list_strip: "\<not> isspace c \<Longrightarrow> count_list (strip s) c = count_list s c"
  by (simp add: strip_def count_list_rev count_list_dropWhile)

lemma strchr_None: "strchr s c = None \<longleftrightarrow> c \<notin> set s"
  by (simp add: strchr_def)

lemma first_occurrence:
  "c \<in> set s \<Longrightarrow>
   length (takeWhile (\<lambda>x. x \<noteq> c) s) < length s
   \<and> s ! length (takeWhile (\<lambda>x. x \<noteq> c) s) = c
   \<and> take (length (takeWhile (\<lambda>x. x \<noteq> c) s)) s = takeWhile (\<lambda>x. x \<noteq> c) s"
  by (induction s) auto

lemma strchr_Some:
  assumes "strchr s c = Some i"
  shows "i < length s" "s ! i = c" "c \<notin> set (take i s)" "s = take i s @ c # drop (Suc i) s"
proof -
  from assms have m: "c \<in> set s" and i: "i = length (takeWhile (\<lambda>x. x \<noteq> c) s)"
    by (auto simp: strchr_def split: if_splits)
  from first_occurrence [OF m] show l: "i < length s" and n: "s ! i = c"
    unfolding i by simp_all
  from first_occurrence [OF m] have "take i s = takeWhile (\<lambda>x. x \<noteq> c) s"
    unfolding i by simp
  then show "c \<notin> set (take i s)"
    by (auto dest: set_takeWhileD)
  show "s = take i s @ c # drop (Suc i) s"
    using l n id_take_nth_drop [of i s] by simp
qed


lemma split_values_nonempty: "split_values count v \<noteq> []"
  by (subst split_values.simps) (simp split: option.splits)

lemma join_bar_Cons: "ps \<noteq> [] \<Longrightarrow> join_bar (p # ps) = p @ ''|'' @ join_bar ps"
  by (cases ps) simp_all

lemma split_values_join: "join_bar (split_values count v) = v"
proof (induction count v rule: split_values.induct)
  case (1 count v)
  show ?case
  proof (cases "count < MAX_OPTIONS")
    case False
    then show ?thesis by (subst split_values.simps) simp
  next
    case True
    show ?thesis
    proof (cases "strchr v (CHR ''|'')")
      case None
      then show ?thesis using True by (subst split_values.simps) simp
    next
      case (Some i)
      from "1.IH" [OF True Some]
      have "join_bar (split_values (count + 1) (drop (Suc i) v)) = drop (Suc i) v" .
      moreover from strchr_Some(4) [OF Some] have "v = take i v @ ''|'' @ drop (Suc i) v"
        by simp
      ultimately show ?thesis using True Some
        by (subst split_values.simps) (simp add: join_bar_Cons split_values_nonempty)
    qed
  qed
qed

lemma split_values_length:
  "count \<le> MAX_OPTIONS \<Longrightarrow>
   length (split_values count v) = min (Suc MAX_OPTIONS - count) (Suc (count_list v (CHR ''|'')))"
proof (induction count v rule: split_values.induct)
  case (1 count v)
  show ?case
  proof (cases "count < MAX_OPTIONS")
    case False
    with "1.prems" have "count = MAX_OPTIONS" by simp
    then show ?thesis by (subst split_values.simps) simp
  next
    case True
    show ?thesis
    proof (cases "strchr v (CHR ''|'')")
      case None
      then have "count_list v (CHR ''|'') = 0"
        by (simp add: strchr_None)
      then show ?thesis using True None by (subst split_values.simps) simp
    next
      case (Some i)
      from "1.IH" [OF True Some] True
      have ih: "length (split_values (count + 1) (drop (Suc i) v)) =
            min (Suc MAX_OPTIONS - (count + 1)) (Suc (count_list (drop (Suc i) v) (CHR ''|'')))"
        by simp
      from strchr_Some(4) [OF Some]
      have "count_list v (CHR ''|'') =
              count_list (take i v @ CHR ''|'' # drop (Suc i) v) (CHR ''|'')" by simp
      also have "\<dots> = Suc (count_list (drop (Suc i) v) (CHR ''|''))"
        using strchr_Some(3) [OF Some] by simp
      finally have c: "count_list v (CHR ''|'') = Suc (count_list (drop (Suc i) v) (CHR ''|''))" .
      show ?thesis using True Some ih c
        by (subst split_values.simps) auto
    qed
  qed
qed


lemma split_values_butlast:
  "\<forall>p\<in>set (butlast (split_values count v)). CHR ''|'' \<notin> set p"
proof (induction count v rule: split_values.induct)
  case (1 count v)
  show ?case
  proof (cases "count < MAX_OPTIONS")
    case False
    then show ?thesis by (subst split_values.simps) simp
  next
    case True
    show ?thesis
    proof (cases "strchr v (CHR ''|'')")
      case None
      then show ?thesis using True by (subst split_values.simps) simp
    next
      case (Some i)
      from "1.IH" [OF True Some] strchr_Some(3) [OF Some] True Some
      show ?thesis
        by (subst split_values.simps) (simp add: split_values_nonempty)
    qed
  qed
qed

lemma split_values_last:
  assumes "MAX_OPTIONS - 1 \<le> count_list v (CHR ''|'')"
  shows "count_list (last (split_values 1 v)) (CHR ''|'') =
           count_list v (CHR ''|'') - (MAX_OPTIONS - 1)"
proof -
  let ?ps = "split_values 1 v"
  have len: "length ?ps = MAX_OPTIONS"
    using assms split_values_length [of 1 v] by (simp add: MAX_OPTIONS_def)
  have ne: "?ps \<noteq> []" by (rule split_values_nonempty)
  have "v = join_bar ?ps" by (simp add: split_values_join)
  moreover have "count_list (join_bar ps) (CHR ''|'') =
          count_list (last ps) (CHR ''|'') + (length ps - 1)"
    if "ps \<noteq> []" "\<forall>p\<in>set (butlast ps). CHR ''|'' \<notin> set p" for ps
    using that
  proof (induction ps rule: join_bar.induct)
    case 1
    then show ?case by simp
  next
    case (2 a)
    then show ?case by simp
  next
    case (3 a b r)
    then show ?case by simp
  qed
  ultimately have "count_list v (CHR ''|'') = count_list (last ?ps) (CHR ''|'') + (length ?ps - 1)"
    using ne split_values_butlast [of 1 v] by metis
  then show ?thesis using len by simp
qed

lemma split_values_last_count:
  "count_list (last (split_values 1 v)) (CHR ''|'') + (length (split_values 1 v) - 1) =
     count_list v (CHR ''|'')"
proof -
  let ?ps = "split_values 1 v"
  have ne: "?ps \<noteq> []" by (rule split_values_nonempty)
  have "v = join_bar ?ps" by (simp add: split_values_join)
  moreover have "count_list (join_bar ps) (CHR ''|'') =
          count_list (last ps) (CHR ''|'') + (length ps - 1)"
    if "ps \<noteq> []" "\<forall>p\<in>set (butlast ps). CHR ''|'' \<notin> set p" for ps
    using that
  proof (induction ps rule: join_bar.induct)
    case 1
    then show ?case by simp
  next
    case (2 a)
    then show ?case by simp
  next
    case (3 a b r)
    then show ?case by simp
  qed
  ultimately show ?thesis
    using ne split_values_butlast [of 1 v] by metis
qed

lemma strdup_all_enough:
  "length vs \<le> heap st \<Longrightarrow>
   strdup_all st vs = Some (st\<lparr>heap := heap st - length vs\<rparr>, map strip vs)"
proof (induction vs arbitrary: st)
  case Nil
  then show ?case by simp
next
  case (Cons v vs)
  then have "length vs \<le> heap (st\<lparr>heap := heap st - 1\<rparr>)" by simp
  from Cons.IH [OF this] Cons.prems show ?case
    by (simp add: alloc_def)
qed

lemma setup_requirement_line_skip:
  assumes "CHR ''='' \<notin> set line"
  shows "setup_requirement_line st line = (0, st)"
proof -
  obtain name invert where k: "keyword line = (name, invert)" by (cases "keyword line")
  then have "set name \<subseteq> set line"
    by (auto simp: keyword_def split: if_splits dest: in_set_dropD)
  with assms have "strchr name (CHR ''='') = None"
    by (auto simp: strchr_None)
  with k show ?thesis by (simp add: setup_requirement_line_def)
qed

lemma setup_requirement_line_record:
  assumes "keyword line = (name, invert)" and "strchr name (CHR ''='') = Some x"
    and "length (split_values 1 (drop (Suc x) name)) < heap st"
  shows "setup_requirement_line st line =
           (0, st\<lparr>heap := heap st - Suc (length (split_values 1 (drop (Suc x) name))),
                  queue := queue st @
                    [Requirement
                       (if strip (take x name) = ''board'' then ''product'' else strip (take x name))
                       invert (map strip (split_values 1 (drop (Suc x) name)))]\<rparr>)"
proof -
  let ?val = "map strip (split_values 1 (drop (Suc x) name))"
  have "strdup_all (st\<lparr>heap := heap st - 1\<rparr>) ?val =
          Some (st\<lparr>heap := heap st - 1\<rparr>\<lparr>heap := heap (st\<lparr>heap := heap st - 1\<rparr>) - length ?val\<rparr>,
                map strip ?val)"
    using assms(3) by (intro strdup_all_enough) simp
  then show ?thesis using assms
    by (simp add: setup_requirement_line_def alloc_def Let_def strip_idem fb_queue_require_def
        comp_def)
qed

lemma loop_no_newline:
  "CHR 0x0A \<notin> set tail \<Longrightarrow> setup_requirements_loop st line tail = Inr st"
  by (induction tail arbitrary: line) auto

lemma loop_tail_dropped:
  "CHR 0x0A \<notin> set tail \<Longrightarrow>
   setup_requirements_loop st line (pre @ tail) = setup_requirements_loop st line pre"
proof (induction pre arbitrary: st line)
  case Nil
  then show ?case by (simp add: loop_no_newline)
next
  case (Cons c pre)
  then show ?case by (auto split: prod.splits)
qed

lemma loop_line:
  "CHR 0x0A \<notin> set l \<Longrightarrow>
   setup_requirements_loop st line (l @ CHR 0x0A # rest) =
     (case setup_requirement_line st (cstr (line @ l)) of
        (r, st') \<Rightarrow> if r \<noteq> 0 then Inl OutOfMemory else setup_requirements_loop st' [] rest)"
  by (induction l arbitrary: line) auto

lemma loop_append:
  "setup_requirements_loop st line (xs @ CHR 0x0A # ys) =
     (case setup_requirements_loop st line (xs @ [CHR 0x0A]) of
        Inl err \<Rightarrow> Inl err
      | Inr st' \<Rightarrow> setup_requirements_loop st' [] ys)"
proof (induction xs arbitrary: st line)
  case Nil
  then show ?case by (simp split: prod.splits)
next
  case (Cons c xs)
  then show ?case by (simp split: prod.splits)
qed

lemma cstr_no_NUL: "NUL \<notin> set s \<Longrightarrow> cstr s = s"
  by (auto simp: cstr_def takeWhile_eq_all_conv)

lemma cstr_subset: "set (cstr s) \<subseteq> set s"
  by (auto simp: cstr_def dest: set_takeWhileD)

lemma loop_skips_line:
  assumes "CHR ''='' \<notin> set l" and "CHR 0x0A \<notin> set l"
  shows "setup_requirements_loop st [] (l @ CHR 0x0A # rest) = setup_requirements_loop st [] rest"
proof -
  have "CHR ''='' \<notin> set (cstr l)" using assms(1) cstr_subset by blast
  then show ?thesis using assms(2)
    by (simp add: loop_line setup_requirement_line_skip)
qed

lemma line_skipped:
  assumes "CHR ''='' \<notin> set l" and "CHR 0x0A \<notin> set l" and "pre = [] \<or> last pre = CHR 0x0A"
  shows "setup_requirements st (pre @ l @ CHR 0x0A # post) = setup_requirements st (pre @ post)"
proof (cases "pre = []")
  case True
  then show ?thesis using assms by (simp add: setup_requirements_def loop_skips_line)
next
  case False
  with assms(3) obtain xs where pre: "pre = xs @ [CHR 0x0A]"
    by (metis append_butlast_last_id)
  show ?thesis unfolding pre setup_requirements_def
    using loop_append [of st "[]" xs "l @ CHR 0x0A # post"] loop_append [of st "[]" xs post]
      loop_skips_line [OF assms(1,2)]
    by (simp split: sum.splits)
qed

lemma only_out_of_memory:
  "setup_requirements_loop st line s = Inl err \<Longrightarrow> err = OutOfMemory"
  by (induction s arbitrary: st line) (auto split: prod.splits if_splits)

lemma setup_requirement_line_heap:
  assumes "MAX_OPTIONS < heap st"
  shows "\<exists>st'. setup_requirement_line st line = (0, st') \<and> heap st - Suc MAX_OPTIONS \<le> heap st'"
proof -
  obtain name invert where k: "keyword line = (name, invert)" by (cases "keyword line")
  show ?thesis
  proof (cases "strchr name (CHR ''='')")
    case None
    with k show ?thesis by (simp add: setup_requirement_line_def)
  next
    case (Some x)
    have "length (split_values 1 (drop (Suc x) name)) \<le> MAX_OPTIONS"
      using split_values_length [of 1 "drop (Suc x) name"] by (simp add: MAX_OPTIONS_def)
    with assms setup_requirement_line_record [OF k Some, of st] show ?thesis
      by simp
  qed
qed

lemma enough_memory:
  "Suc MAX_OPTIONS * count_list s (CHR 0x0A) \<le> heap st \<Longrightarrow>
   \<exists>st'. setup_requirements_loop st line s = Inr st'"
proof (induction s arbitrary: st line)
  case Nil
  then show ?case by simp
next
  case (Cons c s)
  show ?case
  proof (cases "c = CHR 0x0A")
    case False
    with Cons show ?thesis by simp
  next
    case True
    with Cons.prems have h: "Suc MAX_OPTIONS + Suc MAX_OPTIONS * count_list s (CHR 0x0A) \<le> heap st"
      by simp
    then have "MAX_OPTIONS < heap st" by simp
    from setup_requirement_line_heap [OF this, of "cstr line"] obtain st' where
      s: "setup_requirement_line st (cstr line) = (0, st')" "heap st - Suc MAX_OPTIONS \<le> heap st'"
      by blast
    from h s(2) have "Suc MAX_OPTIONS * count_list s (CHR 0x0A) \<le> heap st'" by simp
    from Cons.IH [OF this] True s(1) show ?thesis by simp
  qed
qed












text \<open>
  Claim C10. The bytes after the last newline of a buffer are ignored: with or without
  them the result is the same, records and error alike, and a buffer with no newline at
  all leaves the state as it was, with no record and no error.
\<close>

theorem unterminated_tail_ignored:
  "CHR 0x0A \<notin> set tail \<longrightarrow>
     setup_requirements st (pre @ tail) = setup_requirements st pre
     \<and> setup_requirements st tail = Inr st"
  by (simp add: setup_requirements_def loop_tail_dropped loop_no_newline)

theorem unterminated_tail_ignored_witness:
  "CHR 0x0A \<notin> set ''reject b=c''
   \<and> setup_requirements (initial env0 []) ((''a=1'' @ [CHR 0x0A]) @ ''reject b=c'') =
       setup_requirements (initial env0 []) (''a=1'' @ [CHR 0x0A])
   \<and> setup_requirements (initial env0 []) ''reject b=c'' = Inr (initial env0 [])"
  using unterminated_tail_ignored [of "''reject b=c''" "initial env0 []" "''a=1'' @ [CHR 0x0A]"]
  by simp

text \<open>
  Claim C1, as amended. A line with no \<open>=\<close> is skipped: the buffer gives the same result,
  records and state, as the buffer without that line, whatever lines stand before and
  after it.
\<close>

theorem line_without_equals_skipped:
  "CHR ''='' \<notin> set l \<longrightarrow> CHR 0x0A \<notin> set l \<longrightarrow> pre = [] \<or> last pre = CHR 0x0A \<longrightarrow>
     setup_requirements st (pre @ l @ [CHR 0x0A] @ post) = setup_requirements st (pre @ post)"
  using line_skipped [of l pre st post] by simp

lemma split_b: "split_values 1 ''b'' = [''b'']"
  by code_simp

lemma a_equals_b:
  "setup_requirements (initial env0 []) (''a=b'' @ [CHR 0x0A]) =
     Inr ((initial env0 [])\<lparr>heap := 2, queue := [Requirement ''a'' False [''b'']]\<rparr>)"
proof -
  have k: "keyword ''a=b'' = (''a=b'', False)"
    by (simp add: keyword_def strncmp_eq_def)
  have x: "strchr ''a=b'' (CHR ''='') = Some 1"
    by (simp add: strchr_def)
  have "setup_requirement_line (initial env0 []) ''a=b'' =
          (0, (initial env0 [])\<lparr>heap := 2, queue := [Requirement ''a'' False [''b'']]\<rparr>)"
    using setup_requirement_line_record [OF k x, of "initial env0 []"]
    by (simp add: split_b [unfolded One_nat_def] strip_def isspace_def initial_def env0_def)
  then show ?thesis
    using loop_line [of "''a=b''" "initial env0 []" "[]" "[]"]
    by (simp add: setup_requirements_def cstr_def NUL_def)
qed

theorem line_without_equals_skipped_witness:
  "CHR ''='' \<notin> set ''foo'' \<and> CHR 0x0A \<notin> set ''foo''
   \<and> last (''a=b'' @ [CHR 0x0A]) = CHR 0x0A
   \<and> setup_requirements (initial env0 []) ((''a=b'' @ [CHR 0x0A]) @ ''foo'' @ [CHR 0x0A] @ []) =
       setup_requirements (initial env0 []) ((''a=b'' @ [CHR 0x0A]) @ [])"
  using line_without_equals_skipped [of "''foo''" "''a=b'' @ [CHR 0x0A]" "initial env0 []" "[]"]
  by simp

text \<open>Claim C1 as stated has the whole buffer aborted, with no record, by a line with no
  \<open>=\<close>. Here the second line has none; the result is no error, and the record of the
  first line is queued.\<close>

theorem line_without_equals_no_abort:
  "CHR ''='' \<notin> set ''foo''
   \<and> setup_requirements (initial env0 []) (''a=b'' @ [CHR 0x0A] @ ''foo'' @ [CHR 0x0A]) =
       Inr \<lparr>argv = [], serial = None, vendor_id = 0, sz = 0xDEADBEEF, heap = 2,
            queue = [Requirement ''a'' False [''b'']]\<rparr>"
proof -
  have "setup_requirements (initial env0 []) ((''a=b'' @ [CHR 0x0A]) @ ''foo'' @ CHR 0x0A # []) =
        setup_requirements (initial env0 []) ((''a=b'' @ [CHR 0x0A]) @ [])"
    by (rule line_skipped) simp_all
  then show ?thesis
    using a_equals_b by (simp add: initial_def env0_def)
qed

lemma strip_subset: "set (strip s) \<subseteq> set s"
  by (auto simp: strip_def dest!: set_dropWhileD)

lemma bar_not_space: "\<not> isspace (CHR ''|'')"
  by (simp add: isspace_def)

lemma butlast_or_last: "xs \<noteq> [] \<Longrightarrow> x \<in> set xs \<Longrightarrow> x \<in> set (butlast xs) \<or> x = last xs"
  by (induction xs) auto

text \<open>
  Claim C9. For a line with an \<open>=\<close> (and the allocations for 32 values), the text after
  the first \<open>=\<close> becomes at most 32 values and no error: the pieces joined with \<open>|\<close> are
  that text again, character for character, and each value is its piece trimmed; no value
  but the last holds a \<open>|\<close>; and when the text has 31 or more \<open>|\<close>, there are exactly 32
  values and every \<open>|\<close> after the 31st is in the last one. The number of values is one
  more than the number of \<open>|\<close> in the text, capped at 32: with fewer than 31 \<open>|\<close> the
  text is split at every one of them and no value holds a \<open>|\<close>.
\<close>

theorem values_capacity:
  assumes "keyword line = (name, invert)" and "strchr name (CHR ''='') = Some x"
    and "MAX_OPTIONS < heap st"
  shows "let after = drop (Suc x) name;
             pieces = split_values 1 after;
             vals = map strip pieces
         in setup_requirement_line st line =
              (0, st\<lparr>heap := heap st - Suc (length vals),
                     queue := queue st @
                       [Requirement
                          (if strip (take x name) = ''board'' then ''product''
                           else strip (take x name)) invert vals]\<rparr>)
            \<and> length vals \<le> 32
            \<and> join_bar pieces = after
            \<and> (\<forall>p\<in>set (butlast vals). CHR ''|'' \<notin> set p)
            \<and> (31 \<le> count_list after (CHR ''|'') \<longrightarrow>
                 length vals = 32
                 \<and> count_list (last vals) (CHR ''|'') = count_list after (CHR ''|'') - 31)
            \<and> length vals = min 32 (Suc (count_list after (CHR ''|'')))
            \<and> (count_list after (CHR ''|'') < 31 \<longrightarrow>
                 (\<forall>p\<in>set vals. CHR ''|'' \<notin> set p))"
proof -
  define after where "after = drop (Suc x) name"
  define pieces where "pieces = split_values 1 after"
  define vals where "vals = map strip pieces"
  have ne: "pieces \<noteq> []" unfolding pieces_def by (rule split_values_nonempty)
  have len: "length pieces = min 32 (Suc (count_list after (CHR ''|'')))"
    unfolding pieces_def using split_values_length [of 1 after] by (simp add: MAX_OPTIONS_def)
  then have "length pieces < heap st" using assms(3) by (simp add: MAX_OPTIONS_def)
  then have 1: "setup_requirement_line st line =
              (0, st\<lparr>heap := heap st - Suc (length vals),
                     queue := queue st @
                       [Requirement
                          (if strip (take x name) = ''board'' then ''product''
                           else strip (take x name)) invert vals]\<rparr>)"
    using setup_requirement_line_record [OF assms(1,2), of st]
    by (simp add: vals_def pieces_def after_def)
  have 2: "length vals \<le> 32" using len by (simp add: vals_def)
  have 3: "join_bar pieces = after" unfolding pieces_def by (rule split_values_join)
  have 4: "\<forall>p\<in>set (butlast vals). CHR ''|'' \<notin> set p"
  proof
    fix p assume "p \<in> set (butlast vals)"
    then obtain q where q: "q \<in> set (butlast pieces)" "p = strip q"
      by (auto simp: vals_def map_butlast [symmetric])
    from q(1) have "CHR ''|'' \<notin> set q"
      using split_values_butlast [of 1 after] by (simp add: pieces_def)
    then show "CHR ''|'' \<notin> set p" using strip_subset [of q] q(2) by blast
  qed
  have 5: "length vals = 32
           \<and> count_list (last vals) (CHR ''|'') = count_list after (CHR ''|'') - 31"
    if "31 \<le> count_list after (CHR ''|'')"
  proof -
    have "last vals = strip (last pieces)" using ne by (simp add: vals_def last_map)
    then have "count_list (last vals) (CHR ''|'') = count_list (last pieces) (CHR ''|'')"
      by (simp add: count_list_strip bar_not_space)
    also have "\<dots> = count_list after (CHR ''|'') - 31"
      unfolding pieces_def using split_values_last [of after] that by (simp add: MAX_OPTIONS_def)
    finally have c: "count_list (last vals) (CHR ''|'') = count_list after (CHR ''|'') - 31" .
    have "length vals = 32" using len that by (simp add: vals_def)
    with c show ?thesis by simp
  qed
  have 6: "length vals = min 32 (Suc (count_list after (CHR ''|'')))"
    using len by (simp add: vals_def)
  have 7: "\<forall>p\<in>set vals. CHR ''|'' \<notin> set p" if "count_list after (CHR ''|'') < 31"
  proof -
    have l: "length pieces = Suc (count_list after (CHR ''|''))"
      using len that by simp
    have "count_list (last pieces) (CHR ''|'') = 0"
      using split_values_last_count [of after] l by (simp add: pieces_def)
    moreover have "last vals = strip (last pieces)" using ne by (simp add: vals_def last_map)
    ultimately have "count_list (last vals) (CHR ''|'') = 0"
      by (simp add: count_list_strip bar_not_space)
    then have "CHR ''|'' \<notin> set (last vals)"
      by (simp add: count_list_0_iff)
    moreover have "vals \<noteq> []" using ne by (simp add: vals_def)
    ultimately show ?thesis using 4 by (auto dest: butlast_or_last)
  qed
  have c5: "31 \<le> count_list after (CHR ''|'') \<longrightarrow>
                 length vals = 32
                 \<and> count_list (last vals) (CHR ''|'') = count_list after (CHR ''|'') - 31"
    using 5 by simp
  have c7: "count_list after (CHR ''|'') < 31 \<longrightarrow> (\<forall>p\<in>set vals. CHR ''|'' \<notin> set p)"
    using 7 by simp
  show ?thesis
    using 1 2 3 4 c5 6 c7
    unfolding Let_def after_def [symmetric] pieces_def [symmetric] vals_def [symmetric]
    by (intro conjI) assumption+
qed

lemma split_bars:
  "split_values 1 (''a'' @ replicate 33 (CHR ''|'') @ '' z '') =
     ''a'' # replicate 30 [] @ [''|| z '']"
  by code_simp

lemma split_a_b_c: "split_values 1 ''a|b|c'' = [''a'', ''b'', ''c'']"
  by code_simp

theorem values_capacity_witness:
  "keyword (''v=a'' @ replicate 33 (CHR ''|'') @ '' z '') =
     (''v=a'' @ replicate 33 (CHR ''|'') @ '' z '', False)
   \<and> strchr (''v=a'' @ replicate 33 (CHR ''|'') @ '' z '') (CHR ''='') = Some 1
   \<and> MAX_OPTIONS < heap ((initial env0 [])\<lparr>heap := 40\<rparr>)
   \<and> setup_requirement_line ((initial env0 [])\<lparr>heap := 40\<rparr>)
        (''v=a'' @ replicate 33 (CHR ''|'') @ '' z '') =
       (0, (initial env0 [])
            \<lparr>heap := 7,
             queue := [Requirement ''v'' False (''a'' # replicate 30 [] @ [''|| z''])]\<rparr>)
   \<and> keyword ''v=a|b|c'' = (''v=a|b|c'', False)
   \<and> strchr ''v=a|b|c'' (CHR ''='') = Some 1
   \<and> count_list ''a|b|c'' (CHR ''|'') < 31
   \<and> setup_requirement_line ((initial env0 [])\<lparr>heap := 40\<rparr>) ''v=a|b|c'' =
       (0, (initial env0 [])
            \<lparr>heap := 36, queue := [Requirement ''v'' False [''a'', ''b'', ''c'']]\<rparr>)"
proof -
  have k: "keyword (''v=a'' @ replicate 33 (CHR ''|'') @ '' z '') =
     (''v=a'' @ replicate 33 (CHR ''|'') @ '' z '', False)"
    by (simp add: keyword_def strncmp_eq_def)
  have x: "strchr (''v=a'' @ replicate 33 (CHR ''|'') @ '' z '') (CHR ''='') = Some 1"
    by (simp add: strchr_def)
  have h: "MAX_OPTIONS < heap ((initial env0 [])\<lparr>heap := 40\<rparr>)"
    by (simp add: MAX_OPTIONS_def)
  have d: "drop (Suc 1) (''v=a'' @ replicate 33 (CHR ''|'') @ '' z '') =
           ''a'' @ replicate 33 (CHR ''|'') @ '' z ''"
    by simp
  have s: "map strip (''a'' # replicate 30 [] @ [''|| z '']) = ''a'' # replicate 30 [] @ [''|| z'']"
    by (simp add: strip_def isspace_def)
  have k': "keyword ''v=a|b|c'' = (''v=a|b|c'', False)"
    by (simp add: keyword_def strncmp_eq_def)
  have x': "strchr ''v=a|b|c'' (CHR ''='') = Some 1"
    by (simp add: strchr_def)
  have d': "drop (Suc 1) ''v=a|b|c'' = ''a|b|c''"
    by simp
  have s': "map strip [''a'', ''b'', ''c''] = [''a'', ''b'', ''c'']"
    by (simp add: strip_def isspace_def)
  have 1: "setup_requirement_line ((initial env0 [])\<lparr>heap := 40\<rparr>)
        (''v=a'' @ replicate 33 (CHR ''|'') @ '' z '') =
       (0, (initial env0 [])
            \<lparr>heap := 7,
             queue := [Requirement ''v'' False (''a'' # replicate 30 [] @ [''|| z''])]\<rparr>)"
    using values_capacity [OF k x h]
    unfolding Let_def d split_bars s
    by (simp add: initial_def strip_def isspace_def)
  have 2: "setup_requirement_line ((initial env0 [])\<lparr>heap := 40\<rparr>) ''v=a|b|c'' =
       (0, (initial env0 [])
            \<lparr>heap := 36, queue := [Requirement ''v'' False [''a'', ''b'', ''c'']]\<rparr>)"
    using values_capacity [OF k' x' h]
    unfolding Let_def d' split_a_b_c s'
    by (simp add: initial_def strip_def isspace_def)
  show ?thesis
    using 1 2 k x h k' x' by simp
qed

section \<open>The option \<open>-i\<close>\<close>

lemma dec_digit:
  assumes "spec_dec_digit c"
  shows "is_digit 10 c" "is_digit 16 c" "digit_value c = Some (spec_digit_val c)"
    "0 \<le> spec_digit_val c" "\<not> isspace c" "c \<noteq> CHR ''-''" "c \<noteq> CHR ''+''"
  using assms
  by (auto simp: spec_dec_digit_def is_digit_def digit_value_def spec_digit_val_def isspace_def)

lemma hex_digit:
  assumes "spec_hex_digit c"
  shows "is_digit 16 c" "digit_value c = Some (spec_digit_val c)" "0 \<le> spec_digit_val c"
  using assms
  by (auto simp: spec_hex_digit_def spec_dec_digit_def is_digit_def digit_value_def
      spec_digit_val_def)

lemma strtoul_digits_all:
  "list_all (\<lambda>c. is_digit base c \<and> digit_value c = Some (spec_digit_val c)) s \<Longrightarrow>
   strtoul_digits base acc s = (foldl (\<lambda>a c. a * base + spec_digit_val c) acc s, [])"
  by (induction s arbitrary: acc) auto

lemma foldl_nonneg:
  "0 \<le> acc \<Longrightarrow> 0 \<le> base \<Longrightarrow> list_all (\<lambda>c. 0 \<le> spec_digit_val c) s \<Longrightarrow>
   0 \<le> foldl (\<lambda>a c. a * base + spec_digit_val c) acc s"
  by (induction s arbitrary: acc) auto

lemma strtoul_decimal:
  assumes "spec_decimal_literal v" and "hd v \<noteq> CHR ''0''"
  shows "strtoul v =
           (if ULONG_MAX < spec_value 10 v then word_of_int ULONG_MAX
            else word_of_int (spec_value 10 v), [])"
    and "0 \<le> spec_value 10 v"
proof -
  from assms(1) obtain c cs where v: "v = c # cs" and c: "spec_dec_digit c"
    and all: "list_all spec_dec_digit (c # cs)"
    by (cases v) (auto simp: spec_decimal_literal_def)
  from assms(2) v have c0: "c \<noteq> CHR ''0''" by simp
  have "list_all (\<lambda>c. is_digit 10 c \<and> digit_value c = Some (spec_digit_val c)) (c # cs)"
    using all by (auto simp: list_all_iff dec_digit)
  from strtoul_digits_all [OF this, of 0]
  have d: "strtoul_digits 10 0 (c # cs) = (spec_value 10 (c # cs), [])"
    by (simp add: spec_value_def)
  show "strtoul v =
           (if ULONG_MAX < spec_value 10 v then word_of_int ULONG_MAX
            else word_of_int (spec_value 10 v), [])"
    unfolding v strtoul_def using dec_digit(5-7) [OF c] c0 d
    by (simp add: Let_def)
  have "list_all (\<lambda>c. 0 \<le> spec_digit_val c) v"
    using all v by (auto simp: list_all_iff dec_digit)
  then show "0 \<le> spec_value 10 v"
    unfolding spec_value_def by (intro foldl_nonneg) simp_all
qed

lemma strtoul_hex:
  assumes "spec_hex_literal v"
  shows "strtoul v =
           (if ULONG_MAX < spec_value 16 (drop 2 v) then word_of_int ULONG_MAX
            else word_of_int (spec_value 16 (drop 2 v)), [])"
    and "0 \<le> spec_value 16 (drop 2 v)"
proof -
  from assms obtain x h hs where v: "v = CHR ''0'' # x # h # hs"
    and x: "x = CHR ''x'' \<or> x = CHR ''X''" and all: "list_all spec_hex_digit (h # hs)"
    by (cases v; cases "tl v"; cases "tl (tl v)") (auto simp: spec_hex_literal_def)
  then have h: "spec_hex_digit h" by simp
  have "list_all (\<lambda>c. is_digit 16 c \<and> digit_value c = Some (spec_digit_val c)) (h # hs)"
    using all by (auto simp: list_all_iff hex_digit)
  from strtoul_digits_all [OF this, of 0]
  have d: "strtoul_digits 16 0 (h # hs) = (spec_value 16 (h # hs), [])"
    by (simp add: spec_value_def)
  show "strtoul v =
           (if ULONG_MAX < spec_value 16 (drop 2 v) then word_of_int ULONG_MAX
            else word_of_int (spec_value 16 (drop 2 v)), [])"
    unfolding v strtoul_def using x d hex_digit(1) [OF h]
    by (auto simp: Let_def isspace_def)
  have "list_all (\<lambda>c. 0 \<le> spec_digit_val c) (drop 2 v)"
    using all v by (auto simp: list_all_iff hex_digit)
  then show "0 \<le> spec_value 16 (drop 2 v)"
    unfolding spec_value_def by (intro foldl_nonneg) simp_all
qed


lemma high_bits_clear: "(and w (not 0xffff) = 0) = (uint w < 2 ^ 16)" for w :: u64
proof -
  have m: "(0xffff :: u64) = mask 16"
    by (simp add: mask_eq_exp_minus_1)
  have "(and w (not (mask 16)) = 0) = (and w (mask 16) = w)"
    by (metis (no_types, lifting) bit.conj_disj_distrib bit.de_Morgan_disj
        or_eq_not_not_and word_and_not word_ao_absorbs(4))
  then show ?thesis unfolding m by (simp add: mask_eq_iff)
qed

lemma strtoul_result_accepted:
  assumes "0 \<le> n"
  shows "(and (if ULONG_MAX < n then word_of_int ULONG_MAX else word_of_int n :: u64)
            (not 0xffff) = 0) = (n \<le> 0xffff)"
proof (cases "ULONG_MAX < n")
  case True
  have "uint (word_of_int ULONG_MAX :: u64) = ULONG_MAX"
    by (simp add: ULONG_MAX_def uint_word_of_int_eq take_bit_int_eq_self)
  then show ?thesis using True unfolding high_bits_clear by (simp add: ULONG_MAX_def)
next
  case False
  then have "uint (word_of_int n :: u64) = n"
    using assms by (simp add: ULONG_MAX_def uint_word_of_int_eq take_bit_int_eq_self)
  then show ?thesis using False unfolding high_bits_clear by auto
qed

lemma ucast_small: "ucast (word_of_int n :: u64) = (word_of_int n :: u16)"
  by (simp add: ucast_eq uint_word_of_int_eq) (simp add: word_eq_iff_unsigned [where ?'a = int]
      uint_word_of_int_eq min_def)

lemma opt_i_literal:
  assumes "strtoul v = (if ULONG_MAX < n then word_of_int ULONG_MAX else word_of_int n, [])"
    and "0 \<le> n"
  shows "scan_step e (st\<lparr>argv := ''-i'' # v # rest\<rparr>) =
           (if n \<le> 0xffff then Inr (st\<lparr>argv := rest, vendor_id := word_of_int n\<rparr>)
            else Inl (InvalidVendorId v))"
proof -
  have "scan_step e (st\<lparr>argv := ''-i'' # v # rest\<rparr>) = opt_i (st\<lparr>argv := ''-i'' # v # rest\<rparr>)"
    by (simp add: scan_step_def commands_def)
  moreover have "n \<le> 0xffff \<Longrightarrow> \<not> ULONG_MAX < n"
    by (simp add: ULONG_MAX_def)
  ultimately show ?thesis
    using strtoul_result_accepted [OF assms(2)]
    by (simp add: opt_i_def require_def skip_def assms(1) ucast_small)
qed


lemma strtoul_examples:
  "strtoul ''0x10000'' = (0x10000, [])" "strtoul ''0177777'' = (0xffff, [])"
  "strtoul ''-0'' = (0, [])"
  by code_simp+

lemma opt_i_rejects:
  assumes "snd (strtoul v) \<noteq> [] \<or> 0xffff < fst (strtoul v)"
  shows "scan e (st\<lparr>argv := ''-i'' # v # rest\<rparr>) = Inl (InvalidVendorId v)"
proof -
  have "uint (fst (strtoul v)) < 2 ^ 16 \<Longrightarrow> \<not> 0xffff < fst (strtoul v)"
    by (simp add: word_less_def)
  then have "snd (strtoul v) \<noteq> [] \<or> and (fst (strtoul v)) (not 0xffff) \<noteq> 0"
    using assms unfolding high_bits_clear by blast
  then have "opt_i (st\<lparr>argv := ''-i'' # v # rest\<rparr>) = Inl (InvalidVendorId v)"
    by (cases "strtoul v") (simp add: opt_i_def require_def)
  then show ?thesis
    by (simp add: scan_turn scan_step_def commands_def)
qed

lemma opt_i_accepts:
  assumes "snd (strtoul v) = []" and "fst (strtoul v) \<le> 0xffff"
  shows "scan_step e (st\<lparr>argv := ''-i'' # v # rest\<rparr>) =
           Inr (st\<lparr>argv := rest, vendor_id := ucast (fst (strtoul v))\<rparr>)"
proof -
  have "uint (fst (strtoul v)) < 2 ^ 16"
    using assms(2) by (simp add: word_le_def)
  then have "and (fst (strtoul v)) (not 0xffff) = 0"
    unfolding high_bits_clear .
  then have "opt_i (st\<lparr>argv := ''-i'' # v # rest\<rparr>) =
           Inr (st\<lparr>argv := rest, vendor_id := ucast (fst (strtoul v))\<rparr>)"
    using assms(1) by (cases "strtoul v") (simp add: opt_i_def require_def skip_def)
  then show ?thesis
    by (simp add: scan_step_def commands_def)
qed

text \<open>
  Claim C6, as amended. A value of \<open>-i\<close> that \<open>strtoul\<close> with base 0 does not consume in
  full, or that exceeds 16 bits, ends the run at once with the error, whatever tokens
  follow; any other value that is not empty is accepted, and what \<open>strtoul\<close> read becomes
  the vendor-id filter. A value that is a \<open>0x\<close>-prefixed hexadecimal literal, or a decimal
  literal with no leading zero, is accepted exactly when its numeric value fits 16 bits,
  and that value becomes the filter. So \<open>-i 0x10000\<close> fails and \<open>-i 0x1949\<close> sets the
  filter to \<open>0x1949\<close>.
\<close>

theorem vendor_id_option:
  "(snd (strtoul v) \<noteq> [] \<or> 0xffff < fst (strtoul v) \<longrightarrow>
      scan e (st\<lparr>argv := ''-i'' # v # rest\<rparr>) = Inl (InvalidVendorId v))
   \<and> (v \<noteq> [] \<longrightarrow> snd (strtoul v) = [] \<longrightarrow> fst (strtoul v) \<le> 0xffff \<longrightarrow>
      scan_step e (st\<lparr>argv := ''-i'' # v # rest\<rparr>) =
        Inr (st\<lparr>argv := rest, vendor_id := ucast (fst (strtoul v))\<rparr>))
   \<and> (spec_hex_literal v \<or> spec_decimal_literal v \<and> hd v \<noteq> CHR ''0'' \<longrightarrow>
      scan_step e (st\<lparr>argv := ''-i'' # v # rest\<rparr>) =
        (case spec_vendor_id v of
           Some n \<Rightarrow> Inr (st\<lparr>argv := rest, vendor_id := word_of_int n\<rparr>)
         | None \<Rightarrow> Inl (InvalidVendorId v)))
   \<and> scan e (st\<lparr>argv := ''-i'' # ''0x10000'' # rest\<rparr>) = Inl (InvalidVendorId ''0x10000'')
   \<and> scan_step e (st\<lparr>argv := ''-i'' # ''0x1949'' # rest\<rparr>) =
       Inr (st\<lparr>argv := rest, vendor_id := 0x1949\<rparr>)"
proof -
  have h: "scan_step e (st\<lparr>argv := ''-i'' # v # rest\<rparr>) =
        (case spec_vendor_id v of
           Some n \<Rightarrow> Inr (st\<lparr>argv := rest, vendor_id := word_of_int n\<rparr>)
         | None \<Rightarrow> Inl (InvalidVendorId v))" if "spec_hex_literal v"
    using opt_i_literal [OF strtoul_hex [OF that], where e = e and st = st and rest = rest] that
    by (simp add: spec_vendor_id_def)
  have "\<not> spec_hex_literal v" if "spec_decimal_literal v" "hd v \<noteq> CHR ''0''"
    using that by (cases v) (auto simp: spec_hex_literal_def)
  then have d: "scan_step e (st\<lparr>argv := ''-i'' # v # rest\<rparr>) =
        (case spec_vendor_id v of
           Some n \<Rightarrow> Inr (st\<lparr>argv := rest, vendor_id := word_of_int n\<rparr>)
         | None \<Rightarrow> Inl (InvalidVendorId v))" if "spec_decimal_literal v" "hd v \<noteq> CHR ''0''"
    using opt_i_literal [OF strtoul_decimal [OF that], where e = e and st = st and rest = rest]
      that
    by (simp add: spec_vendor_id_def)
  have r: "scan e (st\<lparr>argv := ''-i'' # ''0x10000'' # rest\<rparr>) = Inl (InvalidVendorId ''0x10000'')"
    by (rule opt_i_rejects) (simp add: strtoul_examples)
  show ?thesis
    using opt_i_rejects [where v = v and e = e and st = st and rest = rest] h d r
      opt_i_accepts [where v = v and e = e and st = st and rest = rest]
      option_i_1949 [where e = e and st = st and rest = rest] by blast
qed


lemma strtoul_12x: "strtoul ''12x'' = (12, ''x'')"
  by code_simp

lemma strtoul_017: "strtoul ''017'' = (15, [])"
  by code_simp

lemma spec_vendor_id_examples:
  "spec_vendor_id ''6473'' = Some 6473" "spec_vendor_id ''0xFFFF'' = Some 0xffff"
  "spec_vendor_id ''0x10000'' = None" "spec_vendor_id ''0177777'' = None"
  "spec_vendor_id ''-0'' = None"
  by code_simp+

theorem vendor_id_option_witness:
  "''017'' \<noteq> [] \<and> snd (strtoul ''017'') = [] \<and> fst (strtoul ''017'') \<le> 0xffff
   \<and> scan_step env0 ((initial env0 [])\<lparr>argv := [''-i'', ''017'', ''reboot'']\<rparr>) =
       Inr ((initial env0 [])\<lparr>argv := [''reboot''], vendor_id := 15\<rparr>)
   \<and> snd (strtoul ''12x'') \<noteq> []
   \<and> scan env0 ((initial env0 [])\<lparr>argv := [''-i'', ''12x'', ''reboot'']\<rparr>) =
       Inl (InvalidVendorId ''12x'')
   \<and> spec_decimal_literal ''6473'' \<and> hd ''6473'' \<noteq> CHR ''0''
   \<and> scan_step env0 ((initial env0 [])\<lparr>argv := [''-i'', ''6473'', ''reboot'']\<rparr>) =
       Inr ((initial env0 [])\<lparr>argv := [''reboot''], vendor_id := 6473\<rparr>)
   \<and> spec_hex_literal ''0xFFFF''
   \<and> scan_step env0 ((initial env0 [])\<lparr>argv := [''-i'', ''0xFFFF'', ''reboot'']\<rparr>) =
       Inr ((initial env0 [])\<lparr>argv := [''reboot''], vendor_id := 0xffff\<rparr>)
   \<and> spec_hex_literal ''0x10000''
   \<and> scan_step env0 ((initial env0 [])\<lparr>argv := [''-i'', ''0x10000'', ''reboot'']\<rparr>) =
       Inl (InvalidVendorId ''0x10000'')"
proof -
  have 1: "spec_decimal_literal ''6473''" "spec_hex_literal ''0xFFFF''"
    "spec_hex_literal ''0x10000''"
    by (simp_all add: spec_decimal_literal_def spec_hex_literal_def spec_dec_digit_def
        spec_hex_digit_def)
  show ?thesis
    using 1
      vendor_id_option [where v = "''12x''" and e = env0 and st = "initial env0 []"
        and rest = "[''reboot'']"]
      vendor_id_option [where v = "''6473''" and e = env0 and st = "initial env0 []"
        and rest = "[''reboot'']"]
      vendor_id_option [where v = "''017''" and e = env0 and st = "initial env0 []"
        and rest = "[''reboot'']"]
      vendor_id_option [where v = "''0xFFFF''" and e = env0 and st = "initial env0 []"
        and rest = "[''reboot'']"]
      vendor_id_option [where v = "''0x10000''" and e = env0 and st = "initial env0 []"
        and rest = "[''reboot'']"]
    by (simp add: strtoul_12x strtoul_017 spec_vendor_id_examples)
qed

text \<open>Claim C6 as stated accepts such literals only. The run accepts \<open>0177777\<close>, which as
  a decimal literal exceeds 16 bits and is read as octal for \<open>0xffff\<close>, and it accepts
  \<open>-0\<close>, which is no unsigned literal.\<close>

theorem vendor_id_not_only_literals:
  "spec_vendor_id ''0177777'' = None
   \<and> main env0 [''fastboot'', ''-i'', ''0177777'', ''reboot''] =
       Inr (Execute \<lparr>argv = [], serial = None, vendor_id = 0xffff, sz = 0xDEADBEEF,
              heap = 4, queue = [Reboot]\<rparr>)
   \<and> spec_vendor_id ''-0'' = None
   \<and> main env0 [''fastboot'', ''-i'', ''-0'', ''reboot''] =
       Inr (Execute \<lparr>argv = [], serial = None, vendor_id = 0, sz = 0xDEADBEEF,
              heap = 4, queue = [Reboot]\<rparr>)"
  by (simp add: spec_vendor_id_examples main_scan scan_turn scan_done scan_step_def commands_def
      opt_i_def cmd_plain_def require_def skip_def enqueue_def initial_def env0_def
      strtoul_examples)

end
